theory Spec2Isabelle
  imports Complex_Main "HOL-Library.Monad_Syntax"
begin

section \<open>Strings and characters\<close>

text \<open>
  Text is a list of characters with code units below 256; \<open>code c\<close> is the code unit
  of a character.  The character classes are the ones the patterns of the redactor use:
  \<open>\d\<close>, \<open>\w\<close> and \<open>\s\<close> (the white space of ECMAScript that lies below 256: tab,
  line feed, vertical tab, form feed, carriage return, space and no-break space).
\<close>

definition code :: "char \<Rightarrow> nat" where
  "code c = of_char c"

definition is_digit :: "char \<Rightarrow> bool" where
  "is_digit c = (48 \<le> code c \<and> code c \<le> 57)"

definition is_upper :: "char \<Rightarrow> bool" where
  "is_upper c = (65 \<le> code c \<and> code c \<le> 90)"

definition is_lower :: "char \<Rightarrow> bool" where
  "is_lower c = (97 \<le> code c \<and> code c \<le> 122)"

definition is_word :: "char \<Rightarrow> bool" where
  "is_word c = (is_upper c \<or> is_lower c \<or> is_digit c \<or> code c = 95)"

definition is_space :: "char \<Rightarrow> bool" where
  "is_space c = ((9 \<le> code c \<and> code c \<le> 13) \<or> code c = 32 \<or> code c = 160)"

text \<open>
  Canonicalize of the ECMAScript pattern semantics, for a pattern without the unicode
  flag: under the ignore-case flag a character is compared by its upper-case form.  The
  patterns of the redactor name ASCII characters and white space only, and a character
  outside ASCII never canonicalizes to an ASCII one, so only the ASCII letters are
  folded.
\<close>

definition canon :: "bool \<Rightarrow> char \<Rightarrow> nat" where
  "canon ic c = (if ic \<and> is_lower c then code c - 32 else code c)"

section \<open>Regular expressions\<close>

datatype citem =
    Ch char
  | Rng char char
  | Digit
  | Space
  | NonSpace

datatype rx =
    Lit char
  | Cls "citem list"
  | NCls "citem list"
  | Eps
  | Seq rx rx
  | Alt rx rx
  | Rep nat "nat option" bool rx
  | WordB
  | Bol
  | Eol

text \<open>
  \<open>Rep n k greedy r\<close> is the quantifier that asks for \<open>n\<close> iterations and allows
  \<open>k\<close> more (\<open>None\<close>: any number): \<open>r{2,5}\<close> is \<open>Rep 2 (Some 3) True r\<close>,
  \<open>r+\<close> is \<open>Rep 1 None True r\<close>, \<open>r*?\<close> is \<open>Rep 0 None False r\<close>.
\<close>

definition cat :: "rx list \<Rightarrow> rx" where
  "cat rs = foldr Seq rs Eps"

definition str :: "string \<Rightarrow> rx" where
  "str s = cat (map Lit s)"

definition alts :: "rx list \<Rightarrow> rx" where
  "alts rs = foldr Alt (butlast rs) (last rs)"

definition opt :: "rx \<Rightarrow> rx" where
  "opt r = Rep 0 (Some 1) True r"

definition star :: "rx \<Rightarrow> rx" where
  "star r = Rep 0 None True r"

definition plus :: "rx \<Rightarrow> rx" where
  "plus r = Rep 1 None True r"

definition atleast :: "nat \<Rightarrow> rx \<Rightarrow> rx" where
  "atleast n r = Rep n None True r"

definition exactly :: "nat \<Rightarrow> rx \<Rightarrow> rx" where
  "exactly n r = Rep n (Some 0) True r"

definition between :: "nat \<Rightarrow> nat \<Rightarrow> rx \<Rightarrow> rx" where
  "between n k r = Rep n (Some (k - n)) True r"

fun in_item :: "bool \<Rightarrow> citem \<Rightarrow> char \<Rightarrow> bool" where
  "in_item ic (Ch a) c = (canon ic a = canon ic c)"
| "in_item ic (Rng a b) c =
     ((code a \<le> code c \<and> code c \<le> code b) \<or>
      (ic \<and> is_lower c \<and> code a \<le> code c - 32 \<and> code c - 32 \<le> code b) \<or>
      (ic \<and> is_upper c \<and> code a \<le> code c + 32 \<and> code c + 32 \<le> code b))"
| "in_item ic Digit c = is_digit c"
| "in_item ic Space c = is_space c"
| "in_item ic NonSpace c = (\<not> is_space c)"

definition in_class :: "bool \<Rightarrow> citem list \<Rightarrow> char \<Rightarrow> bool" where
  "in_class ic items c = list_ex (\<lambda>i. in_item ic i c) items"

text \<open>
  A position is the character before the current index (\<open>None\<close> at index 0) and the
  text from the current index on.  \<open>steps ic r p\<close> lists the positions at which a match
  of \<open>r\<close> started at \<open>p\<close> can end, in the order in which the backtracking matcher of
  ECMAScript finds them: the head of the list is the match the engine returns.  The
  patterns have no back-reference and no look-around, and the redactor reads the whole
  match only, so capture groups are plain grouping.
\<close>

type_synonym pos = "char option \<times> string"

definition word_before :: "pos \<Rightarrow> bool" where
  "word_before p = (case fst p of None \<Rightarrow> False | Some c \<Rightarrow> is_word c)"

definition word_after :: "pos \<Rightarrow> bool" where
  "word_after p = (case snd p of [] \<Rightarrow> False | c # _ \<Rightarrow> is_word c)"

definition one_char :: "(char \<Rightarrow> bool) \<Rightarrow> pos \<Rightarrow> pos list" where
  "one_char ok p = (case snd p of [] \<Rightarrow> [] | c # cs \<Rightarrow> if ok c then [(Some c, cs)] else [])"

text \<open>The required iterations of a quantifier: no empty check applies to them.\<close>

primrec rep_min :: "(pos \<Rightarrow> pos list) \<Rightarrow> nat \<Rightarrow> pos \<Rightarrow> pos list" where
  "rep_min f 0 p = [p]"
| "rep_min f (Suc n) p = concat (map (rep_min f n) (f p))"

text \<open>
  The iterations beyond the required ones.  An iteration that consumes nothing is
  rejected (the empty check of RepeatMatcher), so every further iteration starts at a
  strictly shorter rest.  A greedy quantifier tries one more iteration before it stops,
  a lazy one stops before it tries.
\<close>

function rep_more :: "(pos \<Rightarrow> pos list) \<Rightarrow> nat option \<Rightarrow> bool \<Rightarrow> pos \<Rightarrow> pos list" where
  "rep_more f k greedy p =
     (if k = Some 0 then [p]
      else if greedy
      then concat (map (rep_more f (map_option (\<lambda>n. n - 1) k) greedy)
             (filter (\<lambda>q. length (snd q) < length (snd p)) (f p))) @ [p]
      else p # concat (map (rep_more f (map_option (\<lambda>n. n - 1) k) greedy)
             (filter (\<lambda>q. length (snd q) < length (snd p)) (f p))))"
  by pat_completeness auto
termination
  by (relation "measure (\<lambda>(f, k, greedy, p). length (snd p))") auto

declare rep_more.simps [simp del]

primrec steps :: "bool \<Rightarrow> rx \<Rightarrow> pos \<Rightarrow> pos list" where
  "steps ic (Lit a) p = one_char (\<lambda>c. canon ic a = canon ic c) p"
| "steps ic (Cls items) p = one_char (in_class ic items) p"
| "steps ic (NCls items) p = one_char (\<lambda>c. \<not> in_class ic items c) p"
| "steps ic Eps p = [p]"
| "steps ic (Seq r1 r2) p = concat (map (steps ic r2) (steps ic r1 p))"
| "steps ic (Alt r1 r2) p = steps ic r1 p @ steps ic r2 p"
| "steps ic (Rep n k greedy r) p =
     concat (map (rep_more (steps ic r) k greedy) (rep_min (steps ic r) n p))"
| "steps ic WordB p = (if word_before p \<noteq> word_after p then [p] else [])"
| "steps ic Bol p = (if fst p = None then [p] else [])"
| "steps ic Eol p = (if snd p = [] then [p] else [])"

section \<open>Matching, searching and replacing\<close>

text \<open>
  A matcher is what a compiled regular expression does at one start index: given the text
  before the index and the text from the index on, it fails or returns the length of the
  match (the matcher slot of an ECMAScript RegExp object, which takes the input and an
  index and returns the end index).
\<close>

type_synonym matcher = "string \<Rightarrow> string \<Rightarrow> nat option"

definition last_char :: "string \<Rightarrow> char option" where
  "last_char s = (if s = [] then None else Some (last s))"

definition rx_matcher :: "bool \<Rightarrow> rx \<Rightarrow> matcher" where
  "rx_matcher ic r pre rest =
     (case steps ic r (last_char pre, rest) of
        [] \<Rightarrow> None
      | q # _ \<Rightarrow> Some (length rest - length (snd q)))"

text \<open>
  The search of RegExpBuiltinExec for a pattern that is not sticky: the start index moves
  right, up to and including the end of the text, until the matcher succeeds.  The result
  is the number of characters skipped and the length of the match.
\<close>

fun search :: "matcher \<Rightarrow> string \<Rightarrow> string \<Rightarrow> (nat \<times> nat) option" where
  "search m pre [] = (case m pre [] of None \<Rightarrow> None | Some n \<Rightarrow> Some (0, n))"
| "search m pre (c # cs) =
     (case m pre (c # cs) of
        Some n \<Rightarrow> Some (0, n)
      | None \<Rightarrow> map_option (\<lambda>(k, n). (Suc k, n)) (search m (pre @ [c]) cs))"

text \<open>
  \<open>String.prototype.replace\<close> with a global pattern and a replacement function.  The
  matches are found from left to right in the text as it was when the call began; after
  an empty match the search moves one character on.  The function is called once for
  every match, in order, with the state \<open>st\<close> it updates (the closure variables of the
  callback).
\<close>

function replace_from ::
  "matcher \<Rightarrow> (string \<Rightarrow> 'st \<Rightarrow> string \<times> 'st) \<Rightarrow> string \<Rightarrow> string \<Rightarrow> 'st \<Rightarrow> string \<times> 'st"
where
  "replace_from m cb pre [] st =
     (case m pre [] of None \<Rightarrow> ([], st) | Some n \<Rightarrow> cb [] st)"
| "replace_from m cb pre (c # cs) st =
     (case search m pre (c # cs) of
        None \<Rightarrow> (c # cs, st)
      | Some (k, n) \<Rightarrow>
          let skipped = take k (c # cs);
              matched = take n (drop k (c # cs));
              after = drop (k + n) (c # cs);
              (repl, st') = cb matched st
          in if n = 0
             then (case after of
                     [] \<Rightarrow> (skipped @ repl, st')
                   | d # ds \<Rightarrow>
                       let (out, st'') = replace_from m cb (pre @ skipped @ [d]) ds st'
                       in (skipped @ repl @ d # out, st''))
             else let (out, st'') = replace_from m cb (pre @ skipped @ matched) after st'
                  in (skipped @ repl @ out, st''))"
  by pat_completeness auto
termination
proof (relation "measure (\<lambda>(m, cb, pre, rest, st). length rest)", goal_cases)
  case 1
  show ?case by simp
next
  case (2 m cb pre c cs st x2 x y xa xb xc xd xe ya x21 x22)
  from 2(8) 2(5) 2(9) have "x21 # x22 = drop (x + y) (c # cs)"
    by simp
  then have "length (x21 # x22) = length (drop (x + y) (c # cs))"
    by simp
  then have "length x22 < length (c # cs)"
    by simp
  then show ?case by simp
next
  case (3 m cb pre c cs st x2 x y xa xb xc xd xe ya)
  from \<open>y \<noteq> 0\<close> have "length (drop (x + y) (c # cs)) < length (c # cs)"
    by (cases y) simp_all
  with \<open>xc = drop (x + y) (c # cs)\<close> show ?case
    by (simp del: drop_Suc_Cons)
qed

declare replace_from.simps [simp del]

definition String_replace ::
  "string \<Rightarrow> matcher \<Rightarrow> (string \<Rightarrow> 'st \<Rightarrow> string \<times> 'st) \<Rightarrow> 'st \<Rightarrow> string \<times> 'st" where
  "String_replace s m cb st = replace_from m cb [] s st"


text \<open>
  \<open>String.prototype.match\<close> with a global pattern: every match, from left to right.
\<close>

definition match_all :: "matcher \<Rightarrow> string \<Rightarrow> string list" where
  "match_all m s = snd (replace_from m (\<lambda>x acc. (x, acc @ [x])) [] s [])"

subsection \<open>RegExp objects\<close>

text \<open>
  A RegExp object has an immutable source and flags and the mutable \<open>lastIndex\<close>.
  \<open>RegExp_exec\<close> is RegExpBuiltinExec for a pattern that is not sticky: a global
  pattern starts at \<open>lastIndex\<close> and stores the end of the match there (0 after a
  failure); any other pattern starts at 0 and leaves \<open>lastIndex\<close> alone.
\<close>

record regexp =
  source :: rx
  global :: bool
  ignoreCase :: bool
  lastIndex :: nat

definition matcher_of :: "regexp \<Rightarrow> matcher" where
  "matcher_of re = rx_matcher (ignoreCase re) (source re)"

definition RegExp_exec :: "regexp \<Rightarrow> string \<Rightarrow> string option \<times> regexp" where
  "RegExp_exec re s =
     (let i = (if global re then lastIndex re else 0);
          failed = (if global re then re\<lparr>lastIndex := 0\<rparr> else re)
      in if length s < i then (None, failed)
         else case search (matcher_of re) (take i s) (drop i s) of
                None \<Rightarrow> (None, failed)
              | Some (k, n) \<Rightarrow>
                  (Some (take n (drop (i + k) s)),
                   if global re then re\<lparr>lastIndex := i + k + n\<rparr> else re))"

definition RegExp_test :: "regexp \<Rightarrow> string \<Rightarrow> bool \<times> regexp" where
  "RegExp_test re s = (case RegExp_exec re s of (m, re') \<Rightarrow> (m \<noteq> None, re'))"

text \<open>\<open>new RegExp(re.source, re.flags)\<close>: a fresh object, \<open>lastIndex\<close> 0.\<close>

definition RegExp_fresh :: "regexp \<Rightarrow> regexp" where
  "RegExp_fresh re = re\<lparr>lastIndex := 0\<rparr>"

text \<open>
  The loop \<open>while ((m = re.exec(text)) !== null) body\<close>.  Nothing but \<open>exec\<close> moves
  \<open>lastIndex\<close>, so the loop runs forever when a match is empty: not returning is the
  value \<open>None\<close>.
\<close>

partial_function (option) while_exec ::
  "(string \<Rightarrow> 'a \<Rightarrow> 'a) \<Rightarrow> regexp \<Rightarrow> string \<Rightarrow> 'a \<Rightarrow> 'a option" where
  "while_exec body re s acc =
     (case RegExp_exec re s of
        (None, re') \<Rightarrow> Some acc
      | (Some m, re') \<Rightarrow> while_exec body re' s (body m acc))"

subsection \<open>String operations\<close>

definition indexOf :: "string \<Rightarrow> char \<Rightarrow> int" where
  "indexOf s c = (if c \<in> set s then int (length (takeWhile (\<lambda>x. x \<noteq> c) s)) else - 1)"

definition lastIndexOf :: "string \<Rightarrow> char \<Rightarrow> int" where
  "lastIndexOf s c =
     (if c \<in> set s then int (length s) - 1 - int (length (takeWhile (\<lambda>x. x \<noteq> c) (rev s)))
      else - 1)"

text \<open>\<open>s.slice(0, e)\<close> and \<open>s.slice(b)\<close>, for indices that are not negative.\<close>

definition slice_to :: "string \<Rightarrow> int \<Rightarrow> string" where
  "slice_to s e = take (nat e) s"

definition slice_from :: "string \<Rightarrow> int \<Rightarrow> string" where
  "slice_from s b = drop (nat b) s"

fun String_includes :: "string \<Rightarrow> string \<Rightarrow> bool" where
  "String_includes [] sub = (sub = [])"
| "String_includes (c # cs) sub = (take (length sub) (c # cs) = sub \<or> String_includes cs sub)"

text \<open>
  \<open>s.split(sep)\<close>: the pieces between the occurrences of \<open>sep\<close>, found from left to
  right without overlap; the empty separator splits into single characters.
\<close>

function split_from :: "string \<Rightarrow> string \<Rightarrow> string \<Rightarrow> string list" where
  "split_from sep cur [] = [cur]"
| "split_from sep cur (c # cs) =
     (if sep \<noteq> [] \<and> take (length sep) (c # cs) = sep
      then cur # split_from sep [] (drop (length sep) (c # cs))
      else split_from sep (cur @ [c]) cs)"
  by pat_completeness auto
termination
proof (relation "measure (\<lambda>(sep, cur, s). length s)", goal_cases)
  case 1
  show ?case by simp
next
  case (2 sep cur c cs)
  then have "length sep \<noteq> 0" by simp
  then have "length (drop (length sep) (c # cs)) < length (c # cs)"
    by (cases "length sep") simp_all
  then show ?case by (simp del: drop_Suc_Cons)
next
  case 3
  then show ?case by simp
qed

declare split_from.simps [simp del]

definition String_split :: "string \<Rightarrow> string \<Rightarrow> string list" where
  "String_split s sep = (if sep = [] then map (\<lambda>c. [c]) s else split_from sep [] s)"

fun Array_join :: "string list \<Rightarrow> string \<Rightarrow> string" where
  "Array_join [] sep = []"
| "Array_join [x] sep = x"
| "Array_join (x # y # ys) sep = x @ sep @ Array_join (y # ys) sep"

text \<open>\<open>toLowerCase\<close> on characters below 256: the ASCII and the Latin-1 capitals.\<close>

definition toLowerCase_char :: "char \<Rightarrow> char" where
  "toLowerCase_char c =
     (if is_upper c \<or> (192 \<le> code c \<and> code c \<le> 222 \<and> code c \<noteq> 215)
      then char_of (code c + 32) else c)"

definition toLowerCase :: "string \<Rightarrow> string" where
  "toLowerCase s = map toLowerCase_char s"

text \<open>
  \<open>Number(s)\<close> for a text of decimal digits, which is what the ipv4 pattern hands to
  \<open>isAllowedIP\<close> between the dots; the empty text is 0.  Any other text is read as NaN
  (\<open>None\<close>): the signs, exponents, radix prefixes and surrounding blanks that \<open>Number\<close>
  also accepts cannot occur in a match of the pattern.
\<close>

definition decimal :: "string \<Rightarrow> nat" where
  "decimal s = foldl (\<lambda>n c. 10 * n + (code c - 48)) 0 s"

definition Number :: "string \<Rightarrow> nat option" where
  "Number s = (if list_all is_digit s then Some (decimal s) else None)"

section \<open>The redactor\<close>

subsection \<open>IPv4 allowlist\<close>

text \<open>Returns true for IPs that should NOT be redacted.\<close>

definition isAllowedIP :: "string \<Rightarrow> bool" where
  "isAllowedIP ip =
     (case map Number (String_split ip ''.'') of
        [Some a, Some b, Some c, Some d] \<Rightarrow>
          a = 127 \<or>
          (a = 0 \<and> b = 0 \<and> c = 0 \<and> d = 0) \<or>
          a = 10 \<or>
          (a = 172 \<and> 16 \<le> b \<and> b \<le> 31) \<or>
          (a = 192 \<and> b = 168) \<or>
          (a = 169 \<and> b = 254) \<or>
          ip = ''8.8.8.8'' \<or> ip = ''8.8.4.4'' \<or> ip = ''1.1.1.1'' \<or> ip = ''1.0.0.1''
      | _ \<Rightarrow> False)"

subsection \<open>Email allowlist\<close>

definition ALLOWED_EMAIL_DOMAINS :: "string list" where
  "ALLOWED_EMAIL_DOMAINS =
     [''example.com'', ''example.org'', ''example.net'', ''example.io'', ''test.com'',
      ''test.org'', ''localhost.com'', ''github.com'', ''dependabot.com'',
      ''users.noreply.github.com'', ''noreply.github.com'', ''renovatebot.com'', ''snyk.io'']"

definition isAllowedEmail :: "string \<Rightarrow> bool" where
  "isAllowedEmail email =
     (let atIdx = lastIndexOf email CHR ''@'' in
      if atIdx = - 1 then False
      else let domain = toLowerCase (slice_from email (atIdx + 1))
           in domain \<in> set ALLOWED_EMAIL_DOMAINS)"

subsection \<open>Secret patterns\<close>

record SecretPattern =
  name :: string
  regex :: regexp
  placeholder :: "string \<Rightarrow> string"
  allow :: "(string \<Rightarrow> bool) option"

definition re_g :: "rx \<Rightarrow> regexp" where
  "re_g r = \<lparr>source = r, global = True, ignoreCase = False, lastIndex = 0\<rparr>"

definition re_gi :: "rx \<Rightarrow> regexp" where
  "re_gi r = \<lparr>source = r, global = True, ignoreCase = True, lastIndex = 0\<rparr>"

definition re_plain :: "rx \<Rightarrow> regexp" where
  "re_plain r = \<lparr>source = r, global = False, ignoreCase = False, lastIndex = 0\<rparr>"

definition upper_az :: citem where "upper_az = Rng CHR ''A'' CHR ''Z''"
definition lower_az :: citem where "lower_az = Rng CHR ''a'' CHR ''z''"
definition digit_09 :: citem where "digit_09 = Rng CHR ''0'' CHR ''9''"

definition alnum :: "citem list" where
  "alnum = [upper_az, lower_az, digit_09]"

text \<open>\<open>[A-Za-z0-9\-_]\<close>\<close>

definition alnum_dash :: "citem list" where
  "alnum_dash = [upper_az, lower_az, digit_09, Ch CHR ''-'', Ch CHR ''_'']"

text \<open>\<open>[_\-]?\<close>\<close>

definition sep_opt :: rx where
  "sep_opt = opt (Cls [Ch CHR ''_'', Ch CHR ''-''])"

text \<open>The double and the single quote.\<close>

definition dquote :: char where "dquote = CHR 0x22"
definition squote :: char where "squote = CHR 0x27"

text \<open>\<open>["']\<close>\<close>

definition quote :: rx where
  "quote = Cls [Ch dquote, Ch squote]"

text \<open>\<open>(?:RSA |EC |DSA |OPENSSH |PGP )?(?:PRIVATE KEY|CERTIFICATE|PUBLIC KEY)\<close>\<close>

definition pem_label :: rx where
  "pem_label =
     Seq (opt (alts [str ''RSA '', str ''EC '', str ''DSA '', str ''OPENSSH '', str ''PGP '']))
         (alts [str ''PRIVATE KEY'', str ''CERTIFICATE'', str ''PUBLIC KEY''])"

text \<open>\<open>[-.\s]?\<close>\<close>

definition phone_sep :: rx where
  "phone_sep = opt (Cls [Ch CHR ''-'', Ch CHR ''.'', Space])"

definition pattern_github_token :: SecretPattern where
  "pattern_github_token =
   \<lparr>name = ''github-token'',
    regex = re_g (cat [WordB, str ''ghp_'', atleast 36 (Cls alnum), WordB]),
    placeholder = (\<lambda>_. ''[REDACTED:github-token]''), allow = None\<rparr>"

definition pattern_github_oauth :: SecretPattern where
  "pattern_github_oauth =
   \<lparr>name = ''github-oauth'',
    regex = re_g (cat [WordB, str ''gho_'', atleast 36 (Cls alnum), WordB]),
    placeholder = (\<lambda>_. ''[REDACTED:github-oauth-token]''), allow = None\<rparr>"

definition pattern_github_app_token :: SecretPattern where
  "pattern_github_app_token =
   \<lparr>name = ''github-app-token'',
    regex = re_g (cat [WordB, str ''ghs_'', atleast 36 (Cls alnum), WordB]),
    placeholder = (\<lambda>_. ''[REDACTED:github-app-token]''), allow = None\<rparr>"

definition pattern_anthropic_key :: SecretPattern where
  "pattern_anthropic_key =
   \<lparr>name = ''anthropic-key'',
    regex = re_g (cat [WordB, str ''sk-ant-'', atleast 32 (Cls alnum_dash), WordB]),
    placeholder = (\<lambda>_. ''[REDACTED:anthropic-api-key]''), allow = None\<rparr>"

definition pattern_openai_key :: SecretPattern where
  "pattern_openai_key =
   \<lparr>name = ''openai-key'',
    regex = re_g (cat [WordB, str ''sk-'', atleast 32 (Cls alnum), WordB]),
    placeholder = (\<lambda>_. ''[REDACTED:openai-api-key]''), allow = None\<rparr>"

definition pattern_huggingface_token :: SecretPattern where
  "pattern_huggingface_token =
   \<lparr>name = ''huggingface-token'',
    regex = re_g (cat [WordB, str ''hf_'', atleast 32 (Cls alnum), WordB]),
    placeholder = (\<lambda>_. ''[REDACTED:huggingface-token]''), allow = None\<rparr>"

definition pattern_aws_access_key :: SecretPattern where
  "pattern_aws_access_key =
   \<lparr>name = ''aws-access-key'',
    regex = re_g (cat [WordB, alts [str ''AKIA'', str ''ASIA'', str ''AROA'', str ''AIDA''],
                       exactly 16 (Cls [upper_az, digit_09]), WordB]),
    placeholder = (\<lambda>_. ''[REDACTED:aws-access-key]''), allow = None\<rparr>"

definition pattern_aws_secret_key :: SecretPattern where
  "pattern_aws_secret_key =
   \<lparr>name = ''aws-secret-key'',
    regex = re_gi (cat [str ''aws'', sep_opt, str ''secret'', sep_opt,
                        opt (Seq (str ''access'') sep_opt), str ''key'', opt quote,
                        star (Cls [Space]), Cls [Ch CHR '':'', Ch CHR ''=''],
                        star (Cls [Space]), opt quote,
                        exactly 40 (Cls [upper_az, lower_az, digit_09, Ch CHR ''/'',
                                         Ch CHR ''+'', Ch CHR ''=''])]),
    placeholder = (\<lambda>_. ''[REDACTED:aws-secret-key]''), allow = None\<rparr>"

definition pattern_bearer_token :: SecretPattern where
  "pattern_bearer_token =
   \<lparr>name = ''bearer-token'',
    regex = re_gi (cat [WordB, str ''Bearer'', plus (Cls [Space]),
                        atleast 20
                          (Seq (plus (Cls [upper_az, lower_az, digit_09, Ch CHR ''-'',
                                           Ch CHR ''.'', Ch CHR ''_'', Ch CHR ''~'',
                                           Ch CHR ''+'', Ch CHR ''/'']))
                               (star (Lit CHR ''='')))]),
    placeholder = (\<lambda>_. ''Bearer [REDACTED:bearer-token]''), allow = None\<rparr>"

definition pattern_private_key :: SecretPattern where
  "pattern_private_key =
   \<lparr>name = ''private-key'',
    regex = re_g (cat [str ''-----BEGIN '', pem_label, str ''-----'',
                       Rep 0 None False (Cls [Space, NonSpace]),
                       str ''-----END '', pem_label, str ''-----'']),
    placeholder = (\<lambda>_. ''[REDACTED:private-key]''), allow = None\<rparr>"

definition pattern_password :: SecretPattern where
  "pattern_password =
   \<lparr>name = ''password'',
    regex = re_gi (cat [alts [str ''password'', str ''passwd'', str ''pwd''],
                        star (Cls [Space]), Cls [Ch CHR '':'', Ch CHR ''=''],
                        star (Cls [Space]),
                        Alt (cat [quote, atleast 8 (NCls [Ch dquote, Ch squote, Space]), quote])
                            (atleast 8 (NCls [Space, Ch dquote, Ch squote, Ch CHR '','',
                                              Ch CHR '';'', Ch CHR ''}'', Ch CHR ''{'']))]),
    placeholder = (\<lambda>_. ''[REDACTED:password]''), allow = None\<rparr>"

definition pattern_connection_string :: SecretPattern where
  "pattern_connection_string =
   \<lparr>name = ''connection-string'',
    regex = re_gi (cat [alts [str ''mongodb'', str ''postgres'', str ''postgresql'',
                              str ''mysql'', str ''redis''],
                        str ''://'', plus (NCls [Ch CHR '':'']), Lit CHR '':'',
                        plus (NCls [Ch CHR ''@'', Space]), Lit CHR ''@'',
                        plus (NCls [Space, Ch dquote, Ch squote, Ch CHR '')''])]),
    placeholder = (\<lambda>_. ''[REDACTED:connection-string]''), allow = None\<rparr>"

definition pattern_jwt :: SecretPattern where
  "pattern_jwt =
   \<lparr>name = ''jwt'',
    regex = re_g (cat [WordB, str ''eyJ'', plus (Cls alnum_dash), Lit CHR ''.'',
                       plus (Cls alnum_dash), Lit CHR ''.'', plus (Cls alnum_dash)]),
    placeholder = (\<lambda>_. ''[REDACTED:jwt]''), allow = None\<rparr>"

definition pattern_pypi_token :: SecretPattern where
  "pattern_pypi_token =
   \<lparr>name = ''pypi-token'',
    regex = re_g (cat [WordB, str ''pypi-'', atleast 32 (Cls alnum_dash), WordB]),
    placeholder = (\<lambda>_. ''[REDACTED:pypi-token]''), allow = None\<rparr>"

definition pattern_npm_token :: SecretPattern where
  "pattern_npm_token =
   \<lparr>name = ''npm-token'',
    regex = re_g (cat [WordB, str ''npm_'', atleast 36 (Cls alnum), WordB]),
    placeholder = (\<lambda>_. ''[REDACTED:npm-token]''), allow = None\<rparr>"

definition pattern_slack_webhook :: SecretPattern where
  "pattern_slack_webhook =
   \<lparr>name = ''slack-webhook'',
    regex = re_g (cat [str ''https://hooks.slack.com/services/'',
                       plus (Cls [upper_az, lower_az, digit_09, Ch CHR ''/''])]),
    placeholder = (\<lambda>_. ''[REDACTED:slack-webhook]''), allow = None\<rparr>"

definition pattern_discord_webhook :: SecretPattern where
  "pattern_discord_webhook =
   \<lparr>name = ''discord-webhook'',
    regex = re_g (cat [str ''https://discord'', opt (str ''app''), str ''.com/api/webhooks/'',
                       plus (Cls [digit_09]), Lit CHR ''/'', plus (Cls alnum_dash)]),
    placeholder = (\<lambda>_. ''[REDACTED:discord-webhook]''), allow = None\<rparr>"

definition pattern_cli_secret :: SecretPattern where
  "pattern_cli_secret =
   \<lparr>name = ''cli-secret'',
    regex = re_gi (cat [str ''--'',
                        alts [str ''token'', cat [str ''api'', sep_opt, str ''key''],
                              str ''secret'', str ''password'', str ''passwd'',
                              cat [str ''api'', sep_opt, str ''secret'']],
                        plus (Cls [Space]),
                        atleast 8 (NCls [Space, Ch squote, Ch dquote])]),
    placeholder = (\<lambda>m. let flagEnd = indexOf m CHR '' ''
                       in slice_to m (flagEnd + 1) @ ''[REDACTED:cli-secret]''),
    allow = None\<rparr>"

definition pattern_url_secret :: SecretPattern where
  "pattern_url_secret =
   \<lparr>name = ''url-secret'',
    regex = re_gi (cat [Cls [Ch CHR ''?'', Ch CHR ''&''],
                        alts [str ''token'', cat [str ''api'', sep_opt, str ''key''],
                              str ''secret'', str ''password'',
                              cat [str ''access'', sep_opt, str ''token'']],
                        Lit CHR ''='',
                        atleast 8 (NCls [Ch CHR ''&'', Space, Ch squote, Ch dquote])]),
    placeholder = (\<lambda>m. let eqIdx = indexOf m CHR ''=''
                       in slice_to m (eqIdx + 1) @ ''[REDACTED:url-secret]''),
    allow = None\<rparr>"

definition pattern_env_secret :: SecretPattern where
  "pattern_env_secret =
   \<lparr>name = ''env-secret'',
    regex = re_g (cat [WordB, opt (Seq (str ''export'') (plus (Cls [Space]))),
                       Cls [upper_az, lower_az],
                       atleast 2 (Cls [upper_az, lower_az, digit_09, Ch CHR ''_'']),
                       alts [str ''_TOKEN'', str ''_KEY'', str ''_SECRET'', str ''_PASSWORD'',
                             str ''_API_KEY'', Seq (str ''_CREDENTIAL'') (opt (Lit CHR ''S'')),
                             str ''_ACCESS_TOKEN'', str ''_PRIVATE_KEY''],
                       star (Cls [Space]), Lit CHR ''='', star (Cls [Space]),
                       atleast 8 (NCls [Space, Ch squote, Ch dquote])]),
    placeholder = (\<lambda>m. let eqIdx = indexOf m CHR ''=''
                       in slice_to m (eqIdx + 1) @ ''[REDACTED:env-secret]''),
    allow = None\<rparr>"

definition pattern_email :: SecretPattern where
  "pattern_email =
   \<lparr>name = ''email'',
    regex = re_g (cat [WordB,
                       plus (Cls [upper_az, lower_az, digit_09, Ch CHR ''.'', Ch CHR ''_'',
                                  Ch CHR ''%'', Ch CHR ''+'', Ch CHR ''-'']),
                       Lit CHR ''@'',
                       plus (Cls [upper_az, lower_az, digit_09, Ch CHR ''.'', Ch CHR ''-'']),
                       Lit CHR ''.'', atleast 2 (Cls [upper_az, lower_az]), WordB]),
    placeholder = (\<lambda>_. ''[REDACTED:email]''), allow = Some isAllowedEmail\<rparr>"

definition pattern_ipv4 :: SecretPattern where
  "pattern_ipv4 =
   \<lparr>name = ''ipv4'',
    regex = re_g (cat [WordB, exactly 3 (Seq (between 1 3 (Cls [Digit])) (Lit CHR ''.'')),
                       between 1 3 (Cls [Digit]), WordB]),
    placeholder = (\<lambda>_. ''[REDACTED:ipv4]''), allow = Some isAllowedIP\<rparr>"

definition pattern_phone :: SecretPattern where
  "pattern_phone =
   \<lparr>name = ''phone'',
    regex = re_g (cat [WordB,
                       opt (cat [opt (Lit CHR ''+''), Lit CHR ''1'', phone_sep]),
                       opt (Lit CHR ''(''), exactly 3 (Cls [Digit]), opt (Lit CHR '')''),
                       phone_sep, exactly 3 (Cls [Digit]), phone_sep,
                       exactly 4 (Cls [Digit]), WordB]),
    placeholder = (\<lambda>_. ''[REDACTED:phone]''), allow = None\<rparr>"

definition pattern_credit_card :: SecretPattern where
  "pattern_credit_card =
   \<lparr>name = ''credit-card'',
    regex = re_g (cat [WordB,
                       alts [cat [Lit CHR ''4'', exactly 12 (Cls [digit_09]),
                                  opt (exactly 3 (Cls [digit_09]))],
                             cat [Lit CHR ''5'', Cls [Rng CHR ''1'' CHR ''5''],
                                  exactly 14 (Cls [digit_09])],
                             cat [Lit CHR ''3'', Cls [Ch CHR ''4'', Ch CHR ''7''],
                                  exactly 13 (Cls [digit_09])],
                             cat [Lit CHR ''6'',
                                  Alt (str ''011'') (Seq (Lit CHR ''5'') (exactly 2 (Cls [digit_09]))),
                                  exactly 12 (Cls [digit_09])]],
                       WordB]),
    placeholder = (\<lambda>_. ''[REDACTED:credit-card]''), allow = None\<rparr>"

definition BUILT_IN_PATTERNS :: "SecretPattern list" where
  "BUILT_IN_PATTERNS =
     [pattern_github_token, pattern_github_oauth, pattern_github_app_token,
      pattern_anthropic_key, pattern_openai_key, pattern_huggingface_token,
      pattern_aws_access_key, pattern_aws_secret_key, pattern_bearer_token,
      pattern_private_key, pattern_password, pattern_connection_string, pattern_jwt,
      pattern_pypi_token, pattern_npm_token, pattern_slack_webhook,
      pattern_discord_webhook, pattern_cli_secret, pattern_url_secret,
      pattern_env_secret, pattern_email, pattern_ipv4, pattern_phone,
      pattern_credit_card]"

subsection \<open>The runtime\<close>

text \<open>
  What a call reads from outside the module: the account of \<open>os.userInfo()\<close>, the
  SHA-256 digest of \<open>crypto.createHash\<close> in hexadecimal, the \<open>RegExp\<close> constructor
  applied to a pattern text and the flag \<open>g\<close> (\<open>None\<close> when it throws SyntaxError), and
  the \<open>lastIndex\<close> that the shared object \<open>UUID_REGEX\<close> holds when the call begins.
\<close>

record runtime =
  os_username :: string
  os_homedir :: string
  sha256_hex :: "string \<Rightarrow> string"
  RegExp_compile :: "string \<Rightarrow> matcher option"
  UUID_lastIndex :: nat

subsection \<open>Entropy-based detection\<close>

fun bump :: "(char \<times> nat) list \<Rightarrow> char \<Rightarrow> (char \<times> nat) list" where
  "bump [] ch = [(ch, 1)]"
| "bump ((k, n) # freq) ch = (if k = ch then (k, n + 1) # freq else (k, n) # bump freq ch)"

text \<open>
  Shannon entropy of a string, in bits per character.  The arithmetic of the source is
  IEEE double precision; it is read here over the real numbers.
\<close>

definition shannonEntropy :: "string \<Rightarrow> real" where
  "shannonEntropy s =
     (let freq = foldl bump [] s;
          len = length s
      in foldl (\<lambda>entropy count. let p = real count / real len in entropy - p * log 2 p)
           0 (map snd freq))"

definition ENTROPY_THRESHOLD :: real where
  "ENTROPY_THRESHOLD = 3.5"

definition MIN_HIGH_ENTROPY_LENGTH :: nat where
  "MIN_HIGH_ENTROPY_LENGTH = 32"

definition hex_digit :: rx where
  "hex_digit = Cls [digit_09, Rng CHR ''a'' CHR ''f'']"

text \<open>
  \<open>/^[0-9a-f]{8}-[0-9a-f]{4}-[0-9a-f]{4}-[0-9a-f]{4}-[0-9a-f]{12}$/i\<close>, a module
  constant: one object for all calls, here with the \<open>lastIndex\<close> it holds.
\<close>

definition UUID_REGEX :: "nat \<Rightarrow> regexp" where
  "UUID_REGEX li =
     \<lparr>source = cat [Bol, exactly 8 hex_digit, Lit CHR ''-'', exactly 4 hex_digit, Lit CHR ''-'',
                     exactly 4 hex_digit, Lit CHR ''-'', exactly 4 hex_digit, Lit CHR ''-'',
                     exactly 12 hex_digit, Eol],
      global = False, ignoreCase = True, lastIndex = li\<rparr>"

text \<open>
  Secondary validation for a candidate high-entropy token.
  Returns true only if the token looks like an actual secret.
\<close>

definition looksLikeSecret :: "runtime \<Rightarrow> string \<Rightarrow> bool" where
  "looksLikeSecret rt token =
     (if fst (RegExp_test (UUID_REGEX (UUID_lastIndex rt)) token) then False
      else if length (match_all (matcher_of (re_g (Lit CHR ''.''))) token) > 2 then False
      else
        let hasUpper = fst (RegExp_test (re_plain (Cls [upper_az])) token);
            hasLower = fst (RegExp_test (re_plain (Cls [lower_az])) token);
            hasDigit = fst (RegExp_test (re_plain (Cls [digit_09])) token)
        in if \<not> (hasUpper \<and> hasLower \<and> hasDigit) then False else True)"

text \<open>\<open>/[A-Za-z0-9+/=_\-]{32,}/g\<close>\<close>

definition tokenRegex :: regexp where
  "tokenRegex =
     re_g (atleast 32 (Cls [upper_az, lower_az, digit_09, Ch CHR ''+'', Ch CHR ''/'',
                            Ch CHR ''='', Ch CHR ''_'', Ch CHR ''-'']))"

text \<open>
  Find high-entropy tokens that look like secrets.
  Only flags strings that look like base64/hex (not prose).
\<close>

definition findHighEntropyTokens :: "runtime \<Rightarrow> string \<Rightarrow> string list option" where
  "findHighEntropyTokens rt text =
     while_exec
       (\<lambda>token suspicious.
          if length token \<ge> MIN_HIGH_ENTROPY_LENGTH \<and>
             shannonEntropy token \<ge> ENTROPY_THRESHOLD \<and>
             looksLikeSecret rt token
          then suspicious @ [token] else suspicious)
       tokenRegex text []"

subsection \<open>Post-redaction scanner\<close>

definition allowed :: "SecretPattern \<Rightarrow> string \<Rightarrow> bool" where
  "allowed pattern match = (case allow pattern of None \<Rightarrow> False | Some ok \<Rightarrow> ok match)"

definition scan_pattern :: "SecretPattern \<Rightarrow> string \<Rightarrow> string list \<Rightarrow> string list option" where
  "scan_pattern pattern text hits =
     while_exec
       (\<lambda>match hits.
          if allowed pattern match then hits
          else hits @ [''['' @ name pattern @ ''] '' @ take 80 match])
       (RegExp_fresh (regex pattern)) text hits"

fun scan_patterns :: "SecretPattern list \<Rightarrow> string \<Rightarrow> string list \<Rightarrow> string list option" where
  "scan_patterns [] text hits = Some hits"
| "scan_patterns (pattern # patterns) text hits =
     (case scan_pattern pattern text hits of
        None \<Rightarrow> None
      | Some hits' \<Rightarrow> scan_patterns patterns text hits')"

text \<open>
  Scan text for remaining suspicious strings after redaction has already run.
  Does NOT modify the text, only reports what it finds.
\<close>

definition scanForRemaining :: "runtime \<Rightarrow> string \<Rightarrow> string list option" where
  "scanForRemaining rt text =
     (case scan_patterns BUILT_IN_PATTERNS text [] of
        None \<Rightarrow> None
      | Some hits \<Rightarrow>
          (case findHighEntropyTokens rt text of
             None \<Rightarrow> None
           | Some highEntropyTokens \<Rightarrow>
               Some (hits @ map (\<lambda>token. ''[high-entropy] '' @ take 80 token) highEntropyTokens)))"

subsection \<open>Username redaction\<close>

definition hashUsername :: "runtime \<Rightarrow> string \<Rightarrow> string" where
  "hashUsername rt username = ''user_'' @ take 8 (sha256_hex rt username)"

subsection \<open>Main redactor\<close>

record RedactionOptions =
  enabled :: bool
  customPatterns :: "string list option"
  redactUsernames :: "string list option"
  redactStrings :: "string list option"
  redactHighEntropy :: "bool option"

record RedactionResult =
  "text" :: string
  redactedCount :: nat
  types :: "string list"

text \<open>\<open>if (!xs.includes(x)) xs.push(x)\<close>, and the insertion into a \<open>Set\<close>.\<close>

definition push_new :: "'a list \<Rightarrow> 'a \<Rightarrow> 'a list" where
  "push_new xs x = (if x \<in> set xs then xs else xs @ [x])"

text \<open>\<open>xs ?? []\<close>\<close>

definition or_empty :: "'a list option \<Rightarrow> 'a list" where
  "or_empty xs = (case xs of None \<Rightarrow> [] | Some ys \<Rightarrow> ys)"

text \<open>The callback of the built-in patterns; its state is \<open>redactedCount\<close> and \<open>types\<close>.\<close>

definition redact_match ::
  "SecretPattern \<Rightarrow> string \<Rightarrow> nat \<times> string list \<Rightarrow> string \<times> nat \<times> string list" where
  "redact_match pattern match st =
     (if allowed pattern match then (match, st)
      else (placeholder pattern match, fst st + 1, push_new (snd st) (name pattern)))"

definition apply_pattern :: "SecretPattern \<Rightarrow> RedactionResult \<Rightarrow> RedactionResult" where
  "apply_pattern pattern r =
     (let re = RegExp_fresh (regex pattern);
          (result, count, ts) =
            String_replace (text r) (matcher_of re) (redact_match pattern) (redactedCount r, types r)
      in \<lparr>text = result, redactedCount = count, types = ts\<rparr>)"

definition redact_custom :: "string \<Rightarrow> nat \<times> string list \<Rightarrow> string \<times> nat \<times> string list" where
  "redact_custom match st = (''[REDACTED:custom]'', fst st + 1, push_new (snd st) ''custom'')"

text \<open>The body of the loop over the custom patterns, with its \<open>try\<close> and \<open>catch\<close>.\<close>

definition apply_custom :: "runtime \<Rightarrow> string \<Rightarrow> RedactionResult \<Rightarrow> RedactionResult" where
  "apply_custom rt patternStr r =
     (case RegExp_compile rt patternStr of
        None \<Rightarrow> r
      | Some re \<Rightarrow>
          let (result, count, ts) =
                String_replace (text r) re redact_custom (redactedCount r, types r)
          in \<lparr>text = result, redactedCount = count, types = ts\<rparr>)"

definition apply_string :: "string \<Rightarrow> RedactionResult \<Rightarrow> RedactionResult" where
  "apply_string s r =
     (if String_includes (text r) s
      then \<lparr>text = Array_join (String_split (text r) s) ''[REDACTED:user-specified]'',
            redactedCount = redactedCount r + 1,
            types = push_new (types r) ''user-specified''\<rparr>
      else r)"

text \<open>\<open>Array.from(new Set([osUsername, homedir, ...extra])).filter(Boolean)\<close>\<close>

definition usernamesToRedact :: "runtime \<Rightarrow> RedactionOptions \<Rightarrow> string list" where
  "usernamesToRedact rt options =
     filter (\<lambda>u. u \<noteq> [])
       (foldl push_new [] ([os_username rt, os_homedir rt] @ or_empty (redactUsernames options)))"

definition apply_username :: "runtime \<Rightarrow> string \<Rightarrow> RedactionResult \<Rightarrow> RedactionResult" where
  "apply_username rt username r =
     (if String_includes (text r) username
      then let hashed = hashUsername rt username;
               result = Array_join (String_split (text r) username) hashed;
               result' = Array_join (String_split result (''-'' @ username @ ''-''))
                           (''-'' @ hashed @ ''-'')
           in \<lparr>text = result', redactedCount = redactedCount r + 1,
               types = push_new (types r) ''username''\<rparr>
      else r)"

definition apply_token :: "string \<Rightarrow> RedactionResult \<Rightarrow> RedactionResult" where
  "apply_token token r =
     \<lparr>text = Array_join (String_split (text r) token) ''[REDACTED:high-entropy]'',
      redactedCount = redactedCount r + 1,
      types = push_new (types r) ''high-entropy''\<rparr>"

text \<open>Redact secrets from a single string.\<close>

definition redactText :: "runtime \<Rightarrow> string \<Rightarrow> RedactionOptions \<Rightarrow> RedactionResult option" where
  "redactText rt txt options =
     (if \<not> enabled options then Some \<lparr>text = txt, redactedCount = 0, types = []\<rparr>
      else
        let r1 = fold apply_pattern BUILT_IN_PATTERNS \<lparr>text = txt, redactedCount = 0, types = []\<rparr>;
            r2 = fold (apply_custom rt) (or_empty (customPatterns options)) r1;
            r3 = fold apply_string (or_empty (redactStrings options)) r2;
            r4 = fold (apply_username rt) (usernamesToRedact rt options) r3
        in if redactHighEntropy options = Some True
           then (case findHighEntropyTokens rt (text r4) of
                   None \<Rightarrow> None
                 | Some highEntropyTokens \<Rightarrow> Some (fold apply_token highEntropyTokens r4))
           else Some r4)"

subsection \<open>Sessions\<close>

datatype role = User | Assistant | System

record ToolUse =
  tool :: string
  input_summary :: string
  result :: "string option"

record Message =
  role :: role
  content :: string
  thinking :: "string option"
  timestamp :: "string option"
  tool_uses :: "ToolUse list option"

record SessionStats =
  user_messages :: nat
  assistant_messages :: nat
  stats_tool_uses :: nat
  input_tokens :: nat
  output_tokens :: nat

record SessionMetadata =
  files_touched :: "string list"
  uploader_version :: string

record Session =
  session_id :: string
  session_tool :: string
  workspace :: string
  git_branch :: "string option"
  captured_at :: string
  start_time :: "string option"
  end_time :: "string option"
  model :: "string option"
  messages :: "Message list"
  stats :: SessionStats
  metadata :: SessionMetadata

text \<open>
  The running totals of \<open>redactSession\<close>: \<open>totalRedacted\<close> and the set \<open>allTypes\<close>
  in insertion order.
\<close>

type_synonym totals = "nat \<times> string list"

definition add_result :: "RedactionResult \<Rightarrow> totals \<Rightarrow> totals" where
  "add_result r tot = (fst tot + redactedCount r, foldl push_new (snd tot) (types r))"

text \<open>
  An optional text under \<open>if (t)\<close>: a text that is missing or empty is left as it is and
  adds nothing to the totals.
\<close>

definition redact_optional ::
  "runtime \<Rightarrow> RedactionOptions \<Rightarrow> string option \<Rightarrow> totals \<Rightarrow> (string option \<times> totals) option" where
  "redact_optional rt options t tot =
     (case t of
        None \<Rightarrow> Some (None, tot)
      | Some s \<Rightarrow>
          if s = [] then Some (Some s, tot)
          else do {
            r \<leftarrow> redactText rt s options;
            Some (Some (text r), add_result r tot)
          })"

definition redact_tool_use ::
  "runtime \<Rightarrow> RedactionOptions \<Rightarrow> ToolUse \<Rightarrow> totals \<Rightarrow> (ToolUse \<times> totals) option" where
  "redact_tool_use rt options tu tot =
     do {
       summaryResult \<leftarrow> redactText rt (input_summary tu) options;
       (res, tot') \<leftarrow> redact_optional rt options (result tu) (add_result summaryResult tot);
       Some (tu\<lparr>input_summary := text summaryResult, result := res\<rparr>, tot')
     }"

text \<open>\<open>xs.map(f)\<close> for a callback that updates the totals.\<close>

fun map_totals :: "('a \<Rightarrow> totals \<Rightarrow> ('b \<times> totals) option) \<Rightarrow> 'a list \<Rightarrow> totals \<Rightarrow> ('b list \<times> totals) option"
where
  "map_totals f [] tot = Some ([], tot)"
| "map_totals f (x # xs) tot =
     do {
       (y, tot') \<leftarrow> f x tot;
       (ys, tot'') \<leftarrow> map_totals f xs tot';
       Some (y # ys, tot'')
     }"

definition redact_message ::
  "runtime \<Rightarrow> RedactionOptions \<Rightarrow> Message \<Rightarrow> totals \<Rightarrow> (Message \<times> totals) option" where
  "redact_message rt options msg tot =
     do {
       contentResult \<leftarrow> redactText rt (content msg) options;
       (thinking', tot1) \<leftarrow> redact_optional rt options (thinking msg) (add_result contentResult tot);
       (toolUses, tot2) \<leftarrow>
         (case tool_uses msg of
            None \<Rightarrow> Some (None, tot1)
          | Some tus \<Rightarrow>
              do {
                (tus', tot') \<leftarrow> map_totals (redact_tool_use rt options) tus tot1;
                Some (Some tus', tot')
              });
       Some (msg\<lparr>content := text contentResult, thinking := thinking', tool_uses := toolUses\<rparr>, tot2)
     }"

text \<open>
  Apply redaction to all message content in a session.
  Returns a new session object (does not mutate the input).
\<close>

definition redactSession ::
  "runtime \<Rightarrow> Session \<Rightarrow> RedactionOptions \<Rightarrow> (Session \<times> nat \<times> string list) option" where
  "redactSession rt session options =
     (if \<not> enabled options then Some (session, 0, [])
      else do {
        (redactedMessages, totalRedacted, allTypes) \<leftarrow>
          map_totals (redact_message rt options) (messages session) (0, []);
        Some (session\<lparr>messages := redactedMessages\<rparr>, totalRedacted, allTypes)
      })"

section \<open>Sample data\<close>

text \<open>
  A runtime for the examples: the account \<open>alice\<close>, the SHA-256 digests of the two
  texts the examples hash, and the \<open>RegExp\<close> constructor on the pattern texts the
  examples use (the empty pattern matches the empty text everywhere; an opening
  parenthesis alone is a syntax error).
\<close>

definition sample_sha256 :: "string \<Rightarrow> string" where
  "sample_sha256 s =
     (if s = ''alice'' then ''2bd806c97f0e00af1a1fc3328fa763a9269723c8db8fac4f93af71db186d6e90''
      else if s = ''/home/alice''
      then ''612b6fc44e3094a36043870b929ac5fb00daf8513229001e92a639fb827cac26''
      else [])"

definition sample_RegExp :: "string \<Rightarrow> matcher option" where
  "sample_RegExp patternStr =
     (if patternStr = [] then Some (rx_matcher False Eps)
      else if patternStr = ''[0-9]+'' then Some (rx_matcher False (plus (Cls [digit_09])))
      else None)"

definition sample_runtime :: runtime where
  "sample_runtime =
     \<lparr>os_username = ''alice'', os_homedir = ''/home/alice'', sha256_hex = sample_sha256,
      RegExp_compile = sample_RegExp, UUID_lastIndex = 0\<rparr>"

definition BASE_OPTS :: RedactionOptions where
  "BASE_OPTS =
     \<lparr>enabled = True, customPatterns = Some [], redactUsernames = Some [],
      redactStrings = Some [], redactHighEntropy = None\<rparr>"

section \<open>Auxiliary notions\<close>

fun accepts :: "bool \<Rightarrow> rx \<Rightarrow> char \<Rightarrow> bool" where
  "accepts ic (Lit a) c = (canon ic a = canon ic c)"
| "accepts ic (Cls items) c = in_class ic items c"
| "accepts ic (NCls items) c = (\<not> in_class ic items c)"
| "accepts ic Eps c = False"
| "accepts ic (Seq r1 r2) c = (accepts ic r1 c \<or> accepts ic r2 c)"
| "accepts ic (Alt r1 r2) c = (accepts ic r1 c \<or> accepts ic r2 c)"
| "accepts ic (Rep n k greedy r) c = accepts ic r c"
| "accepts ic WordB c = False"
| "accepts ic Bol c = False"
| "accepts ic Eol c = False"

fun nullable :: "rx \<Rightarrow> bool" where
  "nullable (Lit a) = False"
| "nullable (Cls items) = False"
| "nullable (NCls items) = False"
| "nullable Eps = True"
| "nullable (Seq r1 r2) = (nullable r1 \<and> nullable r2)"
| "nullable (Alt r1 r2) = (nullable r1 \<or> nullable r2)"
| "nullable (Rep n k greedy r) = (n = 0 \<or> nullable r)"
| "nullable WordB = True"
| "nullable Bol = True"
| "nullable Eol = True"

definition reaches :: "(char \<Rightarrow> bool) \<Rightarrow> pos \<Rightarrow> pos \<Rightarrow> bool" where
  "reaches A p q = (\<exists>m. snd p = m @ snd q \<and> list_all A m \<and> fst q = (if m = [] then fst p else Some (last m)))"

definition proper :: "matcher \<Rightarrow> bool" where
  "proper m = (\<forall>pre rest n. m pre rest = Some n \<longrightarrow> 0 < n \<and> n \<le> length rest)"

definition matches_from :: "matcher \<Rightarrow> string \<Rightarrow> string \<Rightarrow> string list" where
  "matches_from m pre rest = snd (replace_from m (\<lambda>x acc. (x, acc @ [x])) pre rest [])"

definition token_ok :: "runtime \<Rightarrow> string \<Rightarrow> bool" where
  "token_ok rt token =
     (length token \<ge> MIN_HIGH_ENTROPY_LENGTH \<and>
      shannonEntropy token \<ge> ENTROPY_THRESHOLD \<and>
      looksLikeSecret rt token)"

definition hit :: "SecretPattern \<Rightarrow> string \<Rightarrow> string" where
  "hit pattern match = ''['' @ name pattern @ ''] '' @ take 80 match"

definition pattern_hits :: "SecretPattern \<Rightarrow> string \<Rightarrow> string list" where
  "pattern_hits pattern txt =
     map (hit pattern)
       (filter (\<lambda>match. \<not> allowed pattern match) (match_all (matcher_of (regex pattern)) txt))"

definition touched :: "nat \<times> string list \<Rightarrow> bool" where
  "touched st = (0 < fst st \<and> snd st \<noteq> [])"

definition touched_r :: "RedactionResult \<Rightarrow> bool" where
  "touched_r r = touched (redactedCount r, types r)"

definition stage_ok :: "(RedactionResult \<Rightarrow> RedactionResult) \<Rightarrow> bool" where
  "stage_ok f = (\<forall>r. (f r = r \<or> touched_r (f r)) \<and> (touched_r r \<longrightarrow> touched_r (f r)))"

definition redacted :: "runtime \<Rightarrow> string \<Rightarrow> RedactionOptions \<Rightarrow> RedactionResult" where
  "redacted rt txt options =
     (let r4 = fold (apply_username rt) (usernamesToRedact rt options)
                 (fold apply_string (or_empty (redactStrings options))
                   (fold (apply_custom rt) (or_empty (customPatterns options))
                     (fold apply_pattern BUILT_IN_PATTERNS \<lparr>text = txt, redactedCount = 0, types = []\<rparr>)))
      in if redactHighEntropy options = Some True
         then fold apply_token (filter (token_ok rt) (match_all (matcher_of tokenRegex) (text r4))) r4
         else r4)"

definition is_hex :: "char \<Rightarrow> bool" where
  "is_hex c = (is_digit c \<or> (97 \<le> code c \<and> code c \<le> 102) \<or> (65 \<le> code c \<and> code c \<le> 70))"

definition hex_run :: "nat \<Rightarrow> string \<Rightarrow> string option" where
  "hex_run n s = (if n \<le> length s \<and> list_all is_hex (take n s) then Some (drop n s) else None)"

definition hyphen :: "string \<Rightarrow> string option" where
  "hyphen s = (case s of [] \<Rightarrow> None | c # cs \<Rightarrow> if c = CHR ''-'' then Some cs else None)"

definition is_uuid :: "string \<Rightarrow> bool" where
  "is_uuid s =
     (hex_run 8 s \<bind> hyphen \<bind> hex_run 4 \<bind> hyphen \<bind> hex_run 4 \<bind> hyphen \<bind> hex_run 4 \<bind> hyphen
        \<bind> hex_run 12 = Some [])"

definition char_matcher :: "(char \<Rightarrow> bool) \<Rightarrow> matcher" where
  "char_matcher ok pre s = (case s of [] \<Rightarrow> None | c # cs \<Rightarrow> if ok c then Some 1 else None)"


text \<open>
  What \<open>redactSession\<close> does to the fields of a session: a text is replaced by the text
  that \<open>redactText\<close> returns for it, an optional text only when it is there and not
  empty.
\<close>

definition redacted_text :: "runtime \<Rightarrow> RedactionOptions \<Rightarrow> string \<Rightarrow> string" where
  "redacted_text rt options s = text (redacted rt s options)"

definition redacted_optional :: "runtime \<Rightarrow> RedactionOptions \<Rightarrow> string option \<Rightarrow> string option" where
  "redacted_optional rt options t =
     map_option (\<lambda>s. if s = [] then s else redacted_text rt options s) t"

definition redacted_tool_use :: "runtime \<Rightarrow> RedactionOptions \<Rightarrow> ToolUse \<Rightarrow> ToolUse" where
  "redacted_tool_use rt options tu =
     tu\<lparr>input_summary := redacted_text rt options (input_summary tu),
        result := redacted_optional rt options (result tu)\<rparr>"

definition redacted_message :: "runtime \<Rightarrow> RedactionOptions \<Rightarrow> Message \<Rightarrow> Message" where
  "redacted_message rt options msg =
     msg\<lparr>content := redacted_text rt options (content msg),
         thinking := redacted_optional rt options (thinking msg),
         tool_uses := map_option (map (redacted_tool_use rt options)) (tool_uses msg)\<rparr>"

definition sample_message :: Message where
  "sample_message =
     \<lparr>role = Assistant, content = [], thinking = Some [], timestamp = None, tool_uses = None\<rparr>"

definition sample_session :: Session where
  "sample_session =
     \<lparr>session_id = ''s1'', session_tool = ''claude-code'', workspace = ''w'', git_branch = None,
      captured_at = ''2024-01-01T00:00:00.000Z'', start_time = None, end_time = None,
      model = None, messages = [sample_message],
      stats = \<lparr>user_messages = 0, assistant_messages = 1, stats_tool_uses = 0,
               input_tokens = 0, output_tokens = 0\<rparr>,
      metadata = \<lparr>files_touched = [], uploader_version = ''1.0.0''\<rparr>\<rparr>"

text \<open>
  A dotted quad, and the allowlisted ranges by the numbers of its parts: loopback
  127.0.0.0/8, the unspecified address, the private ranges 10/8, 172.16/12 and
  192.168/16, and link-local 169.254/16.
\<close>

definition dotted :: "string \<Rightarrow> string \<Rightarrow> string \<Rightarrow> string \<Rightarrow> string" where
  "dotted x1 x2 x3 x4 = x1 @ ''.'' @ x2 @ ''.'' @ x3 @ ''.'' @ x4"

definition allowlisted_range :: "nat \<Rightarrow> nat \<Rightarrow> nat \<Rightarrow> nat \<Rightarrow> bool" where
  "allowlisted_range a b c d =
     (a = 127 \<or> (a = 0 \<and> b = 0 \<and> c = 0 \<and> d = 0) \<or> a = 10 \<or>
      (a = 172 \<and> 16 \<le> b \<and> b \<le> 31) \<or> (a = 192 \<and> b = 168) \<or> (a = 169 \<and> b = 254))"


text \<open>
  The text that \<open>redactText\<close> returns, as a chain of substitutions on the text alone.
  \<open>replace_matches m f s\<close> is \<open>s.replace(re, f)\<close> for a function \<open>f\<close> of the match
  that has no state, and \<open>split_join s x y\<close> is \<open>s.split(x).join(y)\<close>.  Every match of
  a pattern of the table is replaced by what the callback of \<open>redactText\<close> returns for
  it, every match of a custom pattern by \<open>[REDACTED:custom]\<close>, every occurrence of a
  literal string by \<open>[REDACTED:user-specified]\<close>, every occurrence of a user name by
  \<open>user_\<close> and the first 8 digits of its digest, and every occurrence of a high-entropy
  token by \<open>[REDACTED:high-entropy]\<close>.
\<close>

definition replace_matches :: "matcher \<Rightarrow> (string \<Rightarrow> string) \<Rightarrow> string \<Rightarrow> string" where
  "replace_matches m f s = fst (String_replace s m (\<lambda>x u. (f x, u)) ())"

definition split_join :: "string \<Rightarrow> string \<Rightarrow> string \<Rightarrow> string" where
  "split_join s x y = Array_join (String_split s x) y"

definition substitute_pattern :: "SecretPattern \<Rightarrow> string \<Rightarrow> string" where
  "substitute_pattern p s =
     replace_matches (matcher_of (regex p)) (\<lambda>m. fst (redact_match p m (0, []))) s"

definition substitute_custom :: "runtime \<Rightarrow> string \<Rightarrow> string \<Rightarrow> string" where
  "substitute_custom rt patternStr s =
     (case RegExp_compile rt patternStr of
        None \<Rightarrow> s
      | Some re \<Rightarrow> replace_matches re (\<lambda>m. ''[REDACTED:custom]'') s)"

definition substitute_string :: "string \<Rightarrow> string \<Rightarrow> string" where
  "substitute_string x s =
     (if String_includes s x then split_join s x ''[REDACTED:user-specified]'' else s)"

definition substitute_username :: "runtime \<Rightarrow> string \<Rightarrow> string \<Rightarrow> string" where
  "substitute_username rt u s =
     (if String_includes s u
      then split_join (split_join s u (''user_'' @ take 8 (sha256_hex rt u)))
             (''-'' @ u @ ''-'') (''-'' @ ''user_'' @ take 8 (sha256_hex rt u) @ ''-'')
      else s)"

definition substitute_token :: "string \<Rightarrow> string \<Rightarrow> string" where
  "substitute_token token s = split_join s token ''[REDACTED:high-entropy]''"

definition substituted :: "runtime \<Rightarrow> RedactionOptions \<Rightarrow> string \<Rightarrow> string" where
  "substituted rt options txt =
     (let s1 = fold substitute_pattern BUILT_IN_PATTERNS txt;
          s2 = fold (substitute_custom rt) (or_empty (customPatterns options)) s1;
          s3 = fold substitute_string (or_empty (redactStrings options)) s2;
          s4 = fold (substitute_username rt) (usernamesToRedact rt options) s3
      in if redactHighEntropy options = Some True
         then fold substitute_token
                (filter (token_ok rt) (match_all (matcher_of tokenRegex) s4)) s4
         else s4)"
section \<open>The matcher\<close>

text \<open>
  A match of a pattern moves from a position to a later position of the same text, and
  every character it passes is one that some character test of the pattern accepts.
\<close>

lemma reaches_refl: "reaches A p p"
  by (simp add: reaches_def)

lemma reaches_trans:
  assumes "reaches A p q" "reaches A q r"
  shows "reaches A p r"
proof -
  from assms obtain m1 m2 where
    1: "snd p = m1 @ snd q" "list_all A m1" "fst q = (if m1 = [] then fst p else Some (last m1))" and
    2: "snd q = m2 @ snd r" "list_all A m2" "fst r = (if m2 = [] then fst q else Some (last m2))"
    unfolding reaches_def by blast
  have "snd p = (m1 @ m2) @ snd r" "list_all A (m1 @ m2)"
    using 1 2 by simp_all
  moreover have "fst r = (if m1 @ m2 = [] then fst p else Some (last (m1 @ m2)))"
    using 1(3) 2(3) by simp
  ultimately show ?thesis
    unfolding reaches_def by blast
qed

lemma reaches_mono: "reaches A p q \<Longrightarrow> (\<And>c. A c \<Longrightarrow> B c) \<Longrightarrow> reaches B p q"
  unfolding reaches_def by (auto simp: list_all_iff)

lemma reaches_length: "reaches A p q \<Longrightarrow> length (snd q) \<le> length (snd p)"
  unfolding reaches_def by auto

lemma one_char_eq:
  "q \<in> set (one_char ok p) \<Longrightarrow> \<exists>c cs. snd p = c # cs \<and> ok c \<and> q = (Some c, cs)"
  by (cases "snd p") (simp_all add: one_char_def split: if_splits)

lemma one_char_reaches:
  assumes "q \<in> set (one_char ok p)"
  shows "reaches ok p q"
proof -
  from one_char_eq[OF assms] obtain c cs where "snd p = c # cs" "ok c" "q = (Some c, cs)"
    by blast
  then have "snd p = [c] @ snd q \<and> list_all ok [c] \<and> fst q = (if [c] = [] then fst p else Some (last [c]))"
    by simp
  then show ?thesis
    unfolding reaches_def by blast
qed

lemma one_char_shorter: "q \<in> set (one_char ok p) \<Longrightarrow> length (snd q) < length (snd p)"
  using one_char_eq by fastforce

lemma rep_min_reaches:
  assumes f: "\<And>p q. q \<in> set (f p) \<Longrightarrow> reaches A p q"
  shows "q \<in> set (rep_min f n p) \<Longrightarrow> reaches A p q"
proof (induction n arbitrary: p)
  case 0
  then show ?case by (simp add: reaches_refl)
next
  case (Suc n)
  then obtain p' where "p' \<in> set (f p)" "q \<in> set (rep_min f n p')"
    by auto
  then show ?case
    using f Suc.IH reaches_trans by blast
qed

lemma rep_more_cases:
  assumes "q \<in> set (rep_more f k greedy p)"
  shows "q = p \<or> (k \<noteq> Some 0 \<and> (\<exists>x \<in> set (filter (\<lambda>q. length (snd q) < length (snd p)) (f p)).
            q \<in> set (rep_more f (map_option (\<lambda>n. n - 1) k) greedy x)))"
proof (cases "k = Some 0")
  case True
  with assms show ?thesis
    by (subst (asm) rep_more.simps) simp
next
  case False
  with assms show ?thesis
    by (subst (asm) rep_more.simps) (cases greedy; simp; blast)
qed

lemma rep_more_reaches:
  "(\<And>p q. q \<in> set (f p) \<Longrightarrow> reaches A p q) \<Longrightarrow>
   q \<in> set (rep_more f k greedy p) \<Longrightarrow> reaches A p q"
proof (induction f k greedy p arbitrary: q rule: rep_more.induct)
  case (1 f k greedy p)
  note f = "1.prems"(1)
  from rep_more_cases[OF "1.prems"(2)] show ?case
  proof
    assume "q = p"
    then show ?thesis by (simp add: reaches_refl)
  next
    assume "k \<noteq> Some 0 \<and> (\<exists>x \<in> set (filter (\<lambda>q. length (snd q) < length (snd p)) (f p)).
            q \<in> set (rep_more f (map_option (\<lambda>n. n - 1) k) greedy x))"
    then obtain x where k: "k \<noteq> Some 0"
      and x: "x \<in> set (filter (\<lambda>q. length (snd q) < length (snd p)) (f p))"
      and q: "q \<in> set (rep_more f (map_option (\<lambda>n. n - 1) k) greedy x)"
      by blast
    have "reaches A x q"
      using "1.IH"(1)[OF k _ x f q] "1.IH"(2)[OF k _ x f q] by (cases greedy) simp_all
    moreover have "reaches A p x"
    proof -
      from x have "x \<in> set (f p)" by simp
      then show ?thesis by (rule f)
    qed
    ultimately show ?thesis
      by (rule reaches_trans[rotated])
  qed
qed

lemma steps_reaches: "q \<in> set (steps ic r p) \<Longrightarrow> reaches (accepts ic r) p q"
proof (induction r arbitrary: p q)
  case (Lit a)
  then show ?case by (simp add: one_char_reaches)
next
  case (Cls items)
  then have "reaches (in_class ic items) p q" by (simp add: one_char_reaches)
  then show ?case by (rule reaches_mono) simp
next
  case (NCls items)
  then have "reaches (\<lambda>c. \<not> in_class ic items c) p q" by (simp add: one_char_reaches)
  then show ?case by (rule reaches_mono) simp
next
  case Eps
  then show ?case by (simp add: reaches_refl)
next
  case (Seq r1 r2)
  then obtain p' where "p' \<in> set (steps ic r1 p)" "q \<in> set (steps ic r2 p')"
    by auto
  then have "reaches (accepts ic r1) p p'" "reaches (accepts ic r2) p' q"
    using Seq.IH by blast+
  then have "reaches (accepts ic (Seq r1 r2)) p p'" "reaches (accepts ic (Seq r1 r2)) p' q"
    by (auto elim: reaches_mono)
  then show ?case by (rule reaches_trans)
next
  case (Alt r1 r2)
  from Alt.prems have "q \<in> set (steps ic r1 p) \<or> q \<in> set (steps ic r2 p)"
    by simp
  then have "reaches (accepts ic r1) p q \<or> reaches (accepts ic r2) p q"
    using Alt.IH by blast
  then show ?case
  proof
    assume "reaches (accepts ic r1) p q"
    then show ?thesis by (rule reaches_mono) simp
  next
    assume "reaches (accepts ic r2) p q"
    then show ?thesis by (rule reaches_mono) simp
  qed
next
  case (Rep n k greedy r)
  then obtain p' where p': "p' \<in> set (rep_min (steps ic r) n p)"
    and q: "q \<in> set (rep_more (steps ic r) k greedy p')"
    by auto
  have f: "\<And>p q. q \<in> set (steps ic r p) \<Longrightarrow> reaches (accepts ic r) p q"
    using Rep.IH by blast
  have "reaches (accepts ic r) p p'"
    using rep_min_reaches[of "steps ic r" "accepts ic r", OF f p'] .
  moreover have "reaches (accepts ic r) p' q"
    using rep_more_reaches[of "steps ic r" "accepts ic r", OF f q] by simp
  ultimately show ?case
    using reaches_trans by fastforce
next
  case WordB
  then show ?case by (simp add: reaches_refl split: if_splits)
next
  case Bol
  then show ?case by (simp add: reaches_refl split: if_splits)
next
  case Eol
  then show ?case by (simp add: reaches_refl split: if_splits)
qed

text \<open>
  A pattern that is not nullable passes at least one character, so its matcher never
  returns an empty match and never a match longer than the rest of the text.
\<close>

lemma rep_min_shorter:
  assumes f: "\<And>p q. q \<in> set (f p) \<Longrightarrow> length (snd q) < length (snd p)"
  shows "q \<in> set (rep_min f (Suc n) p) \<Longrightarrow> length (snd q) < length (snd p)"
proof (induction n arbitrary: p)
  case 0
  then show ?case using f by auto
next
  case (Suc n)
  then obtain p' where "p' \<in> set (f p)" "q \<in> set (rep_min f (Suc n) p')"
    by auto
  then show ?case
    using f Suc.IH by fastforce
qed

lemma steps_shorter: "\<not> nullable r \<Longrightarrow> q \<in> set (steps ic r p) \<Longrightarrow> length (snd q) < length (snd p)"
proof (induction r arbitrary: p q)
  case (Seq r1 r2)
  from Seq.prems(2) obtain p' where p': "p' \<in> set (steps ic r1 p)" and q: "q \<in> set (steps ic r2 p')"
    by auto
  have 1: "length (snd p') \<le> length (snd p)" "length (snd q) \<le> length (snd p')"
    using steps_reaches[OF p'] steps_reaches[OF q] reaches_length by blast+
  from Seq.prems(1) have "\<not> nullable r1 \<or> \<not> nullable r2" by simp
  then show ?case
  proof
    assume "\<not> nullable r1"
    then have "length (snd p') < length (snd p)" using Seq.IH(1) p' by blast
    with 1 show ?thesis by simp
  next
    assume "\<not> nullable r2"
    then have "length (snd q) < length (snd p')" using Seq.IH(2) q by blast
    with 1 show ?thesis by simp
  qed
next
  case (Alt r1 r2)
  from Alt.prems have "q \<in> set (steps ic r1 p) \<or> q \<in> set (steps ic r2 p)"
    and "\<not> nullable r1" "\<not> nullable r2"
    by simp_all
  then show ?case
    using Alt.IH by blast
next
  case (Rep n k greedy r)
  from Rep.prems(2) obtain p' where p': "p' \<in> set (rep_min (steps ic r) n p)"
    and q: "q \<in> set (rep_more (steps ic r) k greedy p')"
    by auto
  from Rep.prems(1) obtain n' where n: "n = Suc n'" and nn: "\<not> nullable r"
    by (cases n) auto
  have "length (snd p') < length (snd p)"
    using rep_min_shorter[of "steps ic r" p' n' p] Rep.IH[OF nn] p' n by blast
  moreover have "reaches (accepts ic r) p' q"
    using rep_more_reaches[of "steps ic r" "accepts ic r", OF steps_reaches q] by simp
  ultimately show ?case
    using reaches_length by fastforce
qed (simp_all add: one_char_shorter)

lemma rx_matcher_Some:
  assumes "rx_matcher ic r pre rest = Some n"
  shows "n \<le> length rest \<and> list_all (accepts ic r) (take n rest) \<and> (\<not> nullable r \<longrightarrow> 0 < n)"
proof -
  from assms obtain q qs where q: "steps ic r (last_char pre, rest) = q # qs"
    and n: "n = length rest - length (snd q)"
    by (auto simp: rx_matcher_def split: list.splits)
  then have mem: "q \<in> set (steps ic r (last_char pre, rest))"
    by simp
  from steps_reaches[OF mem] obtain m where m: "rest = m @ snd q" "list_all (accepts ic r) m"
    unfolding reaches_def by auto
  then have "n = length m" "take n rest = m"
    using n by (metis add_diff_cancel_right' length_append, metis add_diff_cancel_right' append_eq_conv_conj length_append n)
  moreover have "\<not> nullable r \<Longrightarrow> 0 < n"
    using steps_shorter[OF _ mem] n by fastforce
  ultimately show ?thesis
    using m by auto
qed

lemma proper_rx_matcher: "\<not> nullable r \<Longrightarrow> proper (rx_matcher ic r)"
  unfolding proper_def using rx_matcher_Some by blast

subsection \<open>Searching and replacing\<close>

lemma search_Some:
  "search m pre s = Some (k, n) \<Longrightarrow> k \<le> length s \<and> m (pre @ take k s) (drop k s) = Some n"
proof (induction s arbitrary: pre k)
  case Nil
  then show ?case by (simp split: option.splits)
next
  case (Cons c cs)
  show ?case
  proof (cases "m pre (c # cs)")
    case (Some n')
    with Cons.prems show ?thesis by simp
  next
    case None
    with Cons.prems obtain k' where k': "k = Suc k'" "search m (pre @ [c]) cs = Some (k', n)"
      by auto
    from Cons.IH[OF k'(2)] k'(1) show ?thesis by simp
  qed
qed

lemma search_None:
  "search m pre s = None \<Longrightarrow> k \<le> length s \<Longrightarrow> m (pre @ take k s) (drop k s) = None"
proof (induction s arbitrary: pre k)
  case Nil
  then show ?case by (simp split: option.splits)
next
  case (Cons c cs)
  from Cons.prems(1) have 1: "m pre (c # cs) = None" "search m (pre @ [c]) cs = None"
    by (auto split: option.splits)
  show ?case
  proof (cases k)
    case 0
    with 1 show ?thesis by simp
  next
    case (Suc k')
    with Cons.prems(2) have "k' \<le> length cs" by simp
    from Cons.IH[OF 1(2) this] Suc show ?thesis by simp
  qed
qed

lemma search_proper:
  assumes "proper m" "search m pre s = Some (k, n)"
  shows "0 < n \<and> k + n \<le> length s"
proof -
  from search_Some[OF assms(2)] have "k \<le> length s" "m (pre @ take k s) (drop k s) = Some n"
    by simp_all
  with assms(1) have "0 < n" "n \<le> length (drop k s)"
    unfolding proper_def by blast+
  with \<open>k \<le> length s\<close> show ?thesis by simp
qed

lemma match_all_matches_from: "match_all m s = matches_from m [] s"
  by (simp add: match_all_def matches_from_def)

lemma replace_from_Nil_proper: "proper m \<Longrightarrow> replace_from m cb pre [] st = ([], st)"
proof -
  assume "proper m"
  then have "m pre [] = None"
    unfolding proper_def by (cases "m pre []") fastforce+
  then show ?thesis by (simp add: replace_from.simps)
qed

lemma replace_from_no_match: "search m pre s = None \<Longrightarrow> replace_from m cb pre s st = (s, st)"
  by (cases s) (simp_all add: replace_from.simps split: option.splits)

lemma replace_from_proper_Some:
  assumes "proper m" "search m pre s = Some (k, n)"
  shows "replace_from m cb pre s st =
           (case cb (take n (drop k s)) st of (repl, st') \<Rightarrow>
              (case replace_from m cb (pre @ take (k + n) s) (drop (k + n) s) st' of
                 (out, st'') \<Rightarrow> (take k s @ repl @ out, st'')))"
proof -
  from search_proper[OF assms] have n: "0 < n" "k + n \<le> length s" by simp_all
  then obtain c cs where s: "s = c # cs" by (cases s) auto
  have "take k s @ take n (drop k s) = take (k + n) s"
    by (simp add: take_add)
  then show ?thesis
    using assms(2) n unfolding s
    by (simp add: replace_from.simps Let_def split: prod.splits del: take_Suc_Cons drop_Suc_Cons)
qed

lemma collect_acc:
  assumes "proper m"
  shows "snd (replace_from m (\<lambda>x acc. (x, acc @ [x])) pre rest acc) =
         acc @ snd (replace_from m (\<lambda>x acc. (x, acc @ [x])) pre rest [])"
proof (induction "length rest" arbitrary: rest pre acc rule: less_induct)
  case less
  show ?case
  proof (cases "search m pre rest")
    case None
    then show ?thesis by (simp add: replace_from_no_match)
  next
    case (Some kn)
    obtain k n where kn: "kn = (k, n)" by (cases kn)
    from search_proper[OF assms Some[unfolded kn]] have n: "0 < n" "k + n \<le> length rest" by simp_all
    then have "length (drop (k + n) rest) < length rest" by simp
    note IH = less[OF this]
    show ?thesis
      unfolding replace_from_proper_Some[OF assms Some[unfolded kn]]
      by (simp add: case_prod_beta IH[of _ "acc @ [take n (drop k rest)]"] IH[of _ "[take n (drop k rest)]"])
  qed
qed

lemma matches_from_proper:
  assumes "proper m"
  shows "matches_from m pre s =
           (case search m pre s of
              None \<Rightarrow> []
            | Some (k, n) \<Rightarrow> take n (drop k s) # matches_from m (pre @ take (k + n) s) (drop (k + n) s))"
proof (cases "search m pre s")
  case None
  then show ?thesis by (simp add: matches_from_def replace_from_no_match)
next
  case (Some kn)
  obtain k n where kn: "kn = (k, n)" by (cases kn)
  show ?thesis
    unfolding matches_from_def Some kn replace_from_proper_Some[OF assms Some[unfolded kn]]
    by (simp add: case_prod_beta collect_acc[OF assms, of _ _ "[take n (drop k s)]"])
qed

subsection \<open>The exec loop\<close>

text \<open>
  With a global pattern whose matches are never empty, the loop over \<open>exec\<close> ends, and
  it has run its body on the matches of the text from left to right.
\<close>

lemma RegExp_exec_global:
  assumes "global re" "lastIndex re \<le> length s"
  shows "RegExp_exec re s =
           (case search (matcher_of re) (take (lastIndex re) s) (drop (lastIndex re) s) of
              None \<Rightarrow> (None, re\<lparr>lastIndex := 0\<rparr>)
            | Some (k, n) \<Rightarrow> (Some (take n (drop (lastIndex re + k) s)),
                               re\<lparr>lastIndex := lastIndex re + k + n\<rparr>))"
  using assms by (simp add: RegExp_exec_def Let_def split: option.splits)

lemma while_exec_global:
  "proper (matcher_of re) \<Longrightarrow> global re \<Longrightarrow> lastIndex re \<le> length s \<Longrightarrow>
   while_exec body re s acc =
     Some (fold body (matches_from (matcher_of re) (take (lastIndex re) s) (drop (lastIndex re) s)) acc)"
proof (induction "length s - lastIndex re" arbitrary: re acc rule: less_induct)
  case less
  let ?i = "lastIndex re"
  let ?m = "matcher_of re"
  note ex = RegExp_exec_global[OF less.prems(2,3)]
  show ?case
  proof (cases "search ?m (take ?i s) (drop ?i s)")
    case None
    then show ?thesis
      by (subst while_exec.simps) (simp add: ex matches_from_proper[OF less.prems(1)])
  next
    case (Some kn)
    obtain k n where kn: "kn = (k, n)" by (cases kn)
    from search_proper[OF less.prems(1) Some[unfolded kn]]
    have n: "0 < n" "k + n \<le> length (drop ?i s)" by simp_all
    define re' where "re' = re\<lparr>lastIndex := ?i + k + n\<rparr>"
    have re': "matcher_of re' = ?m" "global re'" "lastIndex re' = ?i + k + n"
      using less.prems by (simp_all add: re'_def matcher_of_def)
    have le: "lastIndex re' \<le> length s"
      using n less.prems re' by simp
    have "length s - lastIndex re' < length s - ?i"
      using n less.prems re' by simp
    from less.hyps[OF this _ _ le, of "body (take n (drop (?i + k) s)) acc"] re' less.prems
    have IH: "while_exec body re' s (body (take n (drop (?i + k) s)) acc) =
        Some (fold body (matches_from ?m (take (?i + k + n) s) (drop (?i + k + n) s))
               (body (take n (drop (?i + k) s)) acc))"
      by simp
    have tk: "take ?i s @ take (k + n) (drop ?i s) = take (?i + k + n) s"
      by (simp add: take_add add.assoc)
    show ?thesis
      apply (subst while_exec.simps)
      apply (subst matches_from_proper[OF less.prems(1)])
      using IH[unfolded re'_def]
      apply (simp add: ex Some kn tk ac_simps)
      done
  qed
qed

subsection \<open>The patterns of the table\<close>

text \<open>No pattern of the table and not the token pattern can match the empty text.\<close>

lemma nullable_simps [simp]:
  "nullable (cat rs) = list_all nullable rs"
  "nullable (str s) = (s = [])"
  "nullable (opt r) = True"
  "nullable (star r) = True"
  "nullable (plus r) = nullable r"
  "nullable (atleast n r) = (n = 0 \<or> nullable r)"
  "nullable (exactly n r) = (n = 0 \<or> nullable r)"
  "nullable (between n k r) = (n = 0 \<or> nullable r)"
  by (induction rs) (simp_all add: cat_def str_def opt_def star_def plus_def atleast_def
      exactly_def between_def, induction s, simp_all)

lemma nullable_alts:
  "rs \<noteq> [] \<Longrightarrow> nullable (alts rs) = list_ex nullable rs"
proof (induction rs)
  case Nil
  then show ?case by simp
next
  case (Cons r rs)
  then show ?case by (cases rs) (simp_all add: alts_def)
qed

lemmas pattern_defs =
  pattern_github_token_def pattern_github_oauth_def pattern_github_app_token_def
  pattern_anthropic_key_def pattern_openai_key_def pattern_huggingface_token_def
  pattern_aws_access_key_def pattern_aws_secret_key_def pattern_bearer_token_def
  pattern_private_key_def pattern_password_def pattern_connection_string_def pattern_jwt_def
  pattern_pypi_token_def pattern_npm_token_def pattern_slack_webhook_def
  pattern_discord_webhook_def pattern_cli_secret_def pattern_url_secret_def
  pattern_env_secret_def pattern_email_def pattern_ipv4_def pattern_phone_def
  pattern_credit_card_def

lemma BUILT_IN_not_nullable:
  "list_all (\<lambda>p. \<not> nullable (source (regex p)) \<and> global (regex p)) BUILT_IN_PATTERNS"
  by (simp add: BUILT_IN_PATTERNS_def pattern_defs re_g_def re_gi_def nullable_alts pem_label_def)

lemma tokenRegex_not_nullable: "\<not> nullable (source tokenRegex) \<and> global tokenRegex"
  by (simp add: tokenRegex_def re_g_def)

subsection \<open>The token finder and the scanner as lists\<close>

lemma fold_push_filter:
  "fold (\<lambda>x acc. if P x then acc @ [f x] else acc) xs acc = acc @ map f (filter P xs)"
  by (induction xs arbitrary: acc) simp_all

lemma fold_skip_filter:
  "fold (\<lambda>x acc. if P x then acc else acc @ [f x]) xs acc = acc @ map f (filter (\<lambda>x. \<not> P x) xs)"
  by (induction xs arbitrary: acc) simp_all

lemma while_exec_fresh:
  assumes "\<not> nullable (source re)" "global re" "lastIndex re = 0"
  shows "while_exec body re s acc = Some (fold body (match_all (matcher_of re) s) acc)"
proof -
  have "proper (matcher_of re)"
    using assms(1) by (simp add: matcher_of_def proper_rx_matcher)
  from while_exec_global[OF this assms(2), of s body acc] assms(3)
  show ?thesis by (simp add: match_all_matches_from)
qed

lemma findHighEntropyTokens_eq:
  "findHighEntropyTokens rt txt =
     Some (filter (token_ok rt) (match_all (matcher_of tokenRegex) txt))"
proof -
  have "lastIndex tokenRegex = 0" by (simp add: tokenRegex_def re_g_def)
  then have "findHighEntropyTokens rt txt =
     Some (fold (\<lambda>x acc. if token_ok rt x then acc @ [x] else acc)
             (match_all (matcher_of tokenRegex) txt) [])"
    unfolding findHighEntropyTokens_def token_ok_def
    using tokenRegex_not_nullable by (intro while_exec_fresh) simp_all
  then show ?thesis
    by (simp only: fold_push_filter list.map_ident append_Nil)
qed

lemma matcher_of_fresh [simp]: "matcher_of (RegExp_fresh re) = matcher_of re"
  by (simp add: matcher_of_def RegExp_fresh_def)

lemma scan_pattern_eq:
  assumes "\<not> nullable (source (regex p))" "global (regex p)"
  shows "scan_pattern p txt hits = Some (hits @ pattern_hits p txt)"
proof -
  have "\<not> nullable (source (RegExp_fresh (regex p)))" "global (RegExp_fresh (regex p))"
    "lastIndex (RegExp_fresh (regex p)) = 0"
    using assms by (simp_all add: RegExp_fresh_def)
  then have "scan_pattern p txt hits =
      Some (fold (\<lambda>match hits. if allowed p match then hits else hits @ [hit p match])
              (match_all (matcher_of (RegExp_fresh (regex p))) txt) hits)"
    unfolding scan_pattern_def hit_def by (intro while_exec_fresh)
  then show ?thesis
    by (simp add: fold_skip_filter pattern_hits_def)
qed

lemma scan_patterns_eq:
  "list_all (\<lambda>p. \<not> nullable (source (regex p)) \<and> global (regex p)) ps \<Longrightarrow>
   scan_patterns ps txt hits = Some (hits @ concat (map (\<lambda>p. pattern_hits p txt) ps))"
  by (induction ps arbitrary: hits) (simp_all add: scan_pattern_eq)

lemma scanForRemaining_eq:
  "scanForRemaining rt txt =
     Some (concat (map (\<lambda>p. pattern_hits p txt) BUILT_IN_PATTERNS) @
           map (\<lambda>token. ''[high-entropy] '' @ take 80 token)
             (filter (token_ok rt) (match_all (matcher_of tokenRegex) txt)))"
  by (simp add: scanForRemaining_def scan_patterns_eq[OF BUILT_IN_not_nullable]
      findHighEntropyTokens_eq)

section \<open>Counting\<close>

text \<open>
  Every stage of \<open>redactText\<close> either returns the result it was given or returns one
  with a positive count and a type, and it keeps a positive count and a type.
\<close>

lemma replace_from_Cons:
  "replace_from m cb pre (c # cs) st =
     (case search m pre (c # cs) of
        None \<Rightarrow> (c # cs, st)
      | Some (k, n) \<Rightarrow>
          (case cb (take n (drop k (c # cs))) st of
             (repl, st') \<Rightarrow>
               if n = 0
               then (case drop k (c # cs) of
                       [] \<Rightarrow> (take k (c # cs) @ repl, st')
                     | d # ds \<Rightarrow>
                         (case replace_from m cb (pre @ take k (c # cs) @ [d]) ds st' of
                            (out, st'') \<Rightarrow> (take k (c # cs) @ repl @ d # out, st'')))
               else (case replace_from m cb (pre @ take k (c # cs) @ take n (drop k (c # cs)))
                            (drop (k + n) (c # cs)) st' of
                       (out, st'') \<Rightarrow> (take k (c # cs) @ repl @ out, st''))))"
  by (simp add: replace_from.simps Let_def split: option.splits prod.splits list.splits
      del: take_Suc_Cons drop_Suc_Cons)

lemma replace_from_touched:
  assumes cb: "\<And>x st. touched st \<Longrightarrow> touched (snd (cb x st))"
  shows "touched st \<Longrightarrow> touched (snd (replace_from m cb pre s st))"
proof (induction "length s" arbitrary: s pre st rule: less_induct)
  case less
  show ?case
  proof (cases s)
    case Nil
    then show ?thesis
      using less.prems cb by (simp add: replace_from.simps split: option.splits)
  next
    case (Cons c cs)
    show ?thesis
    proof (cases "search m pre (c # cs)")
      case None
      then show ?thesis using less.prems Cons by (simp add: replace_from_Cons del: search.simps)
    next
      case (Some kn)
      obtain k n where kn: "kn = (k, n)" by (cases kn)
      obtain repl st' where r: "cb (take n (drop k (c # cs))) st = (repl, st')"
        by (cases "cb (take n (drop k (c # cs))) st")
      have t': "touched st'"
        using cb[OF less.prems, of "take n (drop k (c # cs))"] r by simp
      show ?thesis
      proof (cases "n = 0")
        case True
        show ?thesis
        proof (cases "drop k (c # cs)")
          case Nil
          then show ?thesis
            using Some kn r True t' Cons by (simp add: replace_from_Cons del: search.simps)
        next
          case (Cons d ds)
          then have "length (d # ds) = length (drop k (c # cs))" by simp
          then have "length ds < length s" using \<open>s = c # cs\<close> by simp
          from less.hyps[OF this t'] show ?thesis
            using Some kn r True Cons \<open>s = c # cs\<close>
            by (simp add: replace_from_Cons case_prod_beta del: search.simps)
        qed
      next
        case False
        then have "length (drop (k + n) (c # cs)) < length s"
          using Cons by (cases n) simp_all
        from less.hyps[OF this t'] show ?thesis
          using Some kn r False Cons
          by (simp add: replace_from_Cons case_prod_beta del: drop_Suc_Cons take_Suc_Cons search.simps)
      qed
    qed
  qed
qed

lemma replace_from_same_or_touched:
  assumes cb: "\<And>x st. cb x st = (x, st) \<or> touched (snd (cb x st))"
    and mono: "\<And>x st. touched st \<Longrightarrow> touched (snd (cb x st))"
  shows "replace_from m cb pre s st = (s, st) \<or> touched (snd (replace_from m cb pre s st))"
proof (induction "length s" arbitrary: s pre rule: less_induct)
  case less
  show ?case
  proof (cases s)
    case Nil
    then show ?thesis
      using cb[of "[]" st] by (auto simp add: replace_from.simps split: option.splits)
  next
    case (Cons c cs)
    show ?thesis
    proof (cases "search m pre (c # cs)")
      case None
      then show ?thesis using Cons by (simp add: replace_from_Cons del: search.simps)
    next
      case (Some kn)
      obtain k n where kn: "kn = (k, n)" by (cases kn)
      let ?x = "take n (drop k (c # cs))"
      obtain repl st' where r: "cb ?x st = (repl, st')"
        by (cases "cb ?x st")
      from cb[of ?x st] r have "(repl = ?x \<and> st' = st) \<or> touched st'"
        by auto
      then show ?thesis
      proof
        assume "touched st'"
        have "touched (snd (replace_from m cb pre (c # cs) st))"
        proof (cases "n = 0")
          case True
          show ?thesis
          proof (cases "drop k (c # cs)")
            case Nil
            then show ?thesis
              using Some kn r True \<open>touched st'\<close> by (simp add: replace_from_Cons del: search.simps)
          next
            case (Cons d ds)
            from replace_from_touched[of cb st' m "pre @ take k (c # cs) @ [d]" ds, OF mono \<open>touched st'\<close>]
            show ?thesis
              using Some kn r True Cons
              by (simp add: replace_from_Cons case_prod_beta del: search.simps)
          qed
        next
          case False
          from replace_from_touched[of cb st' m "pre @ take k (c # cs) @ ?x" "drop (k + n) (c # cs)",
              OF mono \<open>touched st'\<close>]
          show ?thesis
            using Some kn r False
            by (simp add: replace_from_Cons case_prod_beta del: drop_Suc_Cons take_Suc_Cons search.simps)
        qed
        then show ?thesis using Cons by simp
      next
        assume same: "repl = ?x \<and> st' = st"
        show ?thesis
        proof (cases "n = 0")
          case True
          show ?thesis
          proof (cases "drop k (c # cs)")
            case Nil
            then have "take k (c # cs) = c # cs"
              by (metis append_Nil2 append_take_drop_id)
            then show ?thesis
              using Some kn r True same Nil Cons by (simp add: replace_from_Cons del: search.simps)
          next
            case (Cons d ds)
            then have "length (d # ds) = length (drop k (c # cs))" by simp
            then have "length ds < length s" using \<open>s = c # cs\<close> by simp
            from less.hyps[OF this, of "pre @ take k (c # cs) @ [d]"]
            have "replace_from m cb (pre @ take k (c # cs) @ [d]) ds st = (ds, st) \<or>
                  touched (snd (replace_from m cb (pre @ take k (c # cs) @ [d]) ds st))" .
            moreover have "take k (c # cs) @ d # ds = c # cs"
              using Cons by (metis append_take_drop_id)
            ultimately show ?thesis
              using Some kn r True same Cons \<open>s = c # cs\<close>
              by (auto simp add: replace_from_Cons case_prod_beta simp del: search.simps)
          qed
        next
          case False
          then have "length (drop (k + n) (c # cs)) < length s"
            using Cons by (cases n) simp_all
          from less.hyps[OF this, of "pre @ take k (c # cs) @ ?x"]
          have "replace_from m cb (pre @ take k (c # cs) @ ?x) (drop (k + n) (c # cs)) st =
                  (drop (k + n) (c # cs), st) \<or>
                touched (snd (replace_from m cb (pre @ take k (c # cs) @ ?x) (drop (k + n) (c # cs)) st))" .
          moreover have "take k (c # cs) @ ?x @ drop (k + n) (c # cs) = c # cs"
            by (metis append_take_drop_id drop_drop add.commute)
          ultimately show ?thesis
            using Some kn r False same Cons
            by (auto simp add: replace_from_Cons case_prod_beta simp del: drop_Suc_Cons take_Suc_Cons search.simps)
        qed
      qed
    qed
  qed
qed

lemma stage_okI:
  "(\<And>r. f r = r \<or> touched_r (f r)) \<Longrightarrow> (\<And>r. touched_r r \<Longrightarrow> touched_r (f r)) \<Longrightarrow> stage_ok f"
  by (simp add: stage_ok_def)

lemma stage_ok_fold: "(\<And>x. stage_ok (f x)) \<Longrightarrow> stage_ok (fold f xs)"
proof (induction xs)
  case Nil
  then show ?case by (simp add: stage_ok_def)
next
  case (Cons x xs)
  from Cons.prems have 1: "stage_ok (f x)" by blast
  from Cons have 2: "stage_ok (fold f xs)" by blast
  show ?case
    unfolding stage_ok_def
  proof (intro allI conjI impI)
    fix r
    show "fold f (x # xs) r = r \<or> touched_r (fold f (x # xs) r)"
      using 1 2 unfolding stage_ok_def by (metis comp_apply fold_simps(2))
    show "touched_r r \<Longrightarrow> touched_r (fold f (x # xs) r)"
      using 1 2 unfolding stage_ok_def by simp
  qed
qed

lemma stage_ok_comp: "stage_ok f \<Longrightarrow> stage_ok g \<Longrightarrow> stage_ok (\<lambda>r. g (f r))"
  unfolding stage_ok_def by metis

lemma push_new_not_Nil [simp]: "push_new xs x \<noteq> []"
  by (auto simp: push_new_def)

lemma touched_Suc [simp]: "touched (Suc n, push_new ts t)"
  by (simp add: touched_def)

lemma redact_match_cases:
  "redact_match p x st = (x, st) \<or> touched (snd (redact_match p x st))"
  by (simp add: redact_match_def)

lemma redact_match_mono: "touched st \<Longrightarrow> touched (snd (redact_match p x st))"
  by (simp add: redact_match_def)

lemma stage_ok_apply_pattern: "stage_ok (apply_pattern p)"
proof (rule stage_okI)
  fix r :: RedactionResult
  let ?res = "replace_from (matcher_of (RegExp_fresh (regex p))) (redact_match p) [] (text r)
                (redactedCount r, types r)"
  have ap: "apply_pattern p r =
      \<lparr>text = fst ?res, redactedCount = fst (snd ?res), types = snd (snd ?res)\<rparr>"
    by (simp add: apply_pattern_def String_replace_def Let_def case_prod_beta)
  from replace_from_same_or_touched[of "redact_match p", OF redact_match_cases redact_match_mono]
  have "?res = (text r, redactedCount r, types r) \<or> touched (snd ?res)"
    by blast
  then show "apply_pattern p r = r \<or> touched_r (apply_pattern p r)"
    unfolding ap by (auto simp: touched_r_def)
  show "touched_r r \<Longrightarrow> touched_r (apply_pattern p r)"
    unfolding ap touched_r_def
    using replace_from_touched[of "redact_match p", OF redact_match_mono] by simp
qed

lemma stage_ok_apply_custom: "stage_ok (apply_custom rt patternStr)"
proof (cases "RegExp_compile rt patternStr")
  case None
  then show ?thesis by (simp add: stage_ok_def apply_custom_def)
next
  case (Some re)
  show ?thesis
  proof (rule stage_okI)
    fix r :: RedactionResult
    let ?res = "replace_from re redact_custom [] (text r) (redactedCount r, types r)"
    have ap: "apply_custom rt patternStr r =
        \<lparr>text = fst ?res, redactedCount = fst (snd ?res), types = snd (snd ?res)\<rparr>"
      by (simp add: apply_custom_def Some String_replace_def Let_def case_prod_beta)
    have c: "\<And>x st. redact_custom x st = (x, st) \<or> touched (snd (redact_custom x st))"
      and m: "\<And>x st. touched st \<Longrightarrow> touched (snd (redact_custom x st))"
      by (simp_all add: redact_custom_def)
    from replace_from_same_or_touched[of redact_custom, OF c m]
    have "?res = (text r, redactedCount r, types r) \<or> touched (snd ?res)"
      by blast
    then show "apply_custom rt patternStr r = r \<or> touched_r (apply_custom rt patternStr r)"
      unfolding ap by (auto simp: touched_r_def)
    show "touched_r r \<Longrightarrow> touched_r (apply_custom rt patternStr r)"
      unfolding ap touched_r_def
      using replace_from_touched[of redact_custom, OF m] by simp
  qed
qed

lemma stage_ok_apply_string: "stage_ok (apply_string s)"
  by (rule stage_okI) (simp_all add: apply_string_def touched_r_def)

lemma stage_ok_apply_username: "stage_ok (apply_username rt u)"
  by (rule stage_okI) (simp_all add: apply_username_def touched_r_def Let_def)

lemma stage_ok_apply_token: "stage_ok (apply_token t)"
  by (rule stage_okI) (simp_all add: apply_token_def touched_r_def)

text \<open>What \<open>redactText\<close> returns when redaction is enabled.\<close>

lemma redactText_enabled:
  "enabled options \<Longrightarrow> redactText rt txt options = Some (redacted rt txt options)"
  by (simp add: redactText_def redacted_def Let_def findHighEntropyTokens_eq)

lemma redacted_same_or_touched:
  "redacted rt txt options = \<lparr>text = txt, redactedCount = 0, types = []\<rparr> \<or>
   touched_r (redacted rt txt options)"
proof -
  let ?init = "\<lparr>text = txt, redactedCount = 0, types = []\<rparr>"
  let ?f1 = "fold apply_pattern BUILT_IN_PATTERNS"
  let ?f2 = "fold (apply_custom rt) (or_empty (customPatterns options))"
  let ?f3 = "fold apply_string (or_empty (redactStrings options))"
  let ?f4 = "fold (apply_username rt) (usernamesToRedact rt options)"
  let ?f5 = "\<lambda>r. if redactHighEntropy options = Some True
         then fold apply_token (filter (token_ok rt) (match_all (matcher_of tokenRegex) (text r))) r
         else r"
  have 5: "stage_ok ?f5"
  proof (rule stage_okI)
    fix r :: RedactionResult
    have "stage_ok (fold apply_token (filter (token_ok rt) (match_all (matcher_of tokenRegex) (text r))))"
      by (rule stage_ok_fold) (rule stage_ok_apply_token)
    then show "?f5 r = r \<or> touched_r (?f5 r)" "touched_r r \<Longrightarrow> touched_r (?f5 r)"
      unfolding stage_ok_def by auto
  qed
  have 1: "stage_ok ?f1" by (rule stage_ok_fold) (rule stage_ok_apply_pattern)
  have 2: "stage_ok ?f2" by (rule stage_ok_fold) (rule stage_ok_apply_custom)
  have 3: "stage_ok ?f3" by (rule stage_ok_fold) (rule stage_ok_apply_string)
  have 4: "stage_ok ?f4" by (rule stage_ok_fold) (rule stage_ok_apply_username)
  have "stage_ok (\<lambda>r. ?f2 (?f1 r))" using 1 2 by (rule stage_ok_comp)
  then have "stage_ok (\<lambda>r. ?f3 (?f2 (?f1 r)))" using 3 by (rule stage_ok_comp)
  then have "stage_ok (\<lambda>r. ?f4 (?f3 (?f2 (?f1 r))))" using 4 by (rule stage_ok_comp)
  then have "stage_ok (\<lambda>r. ?f5 (?f4 (?f3 (?f2 (?f1 r)))))" using 5 by (rule stage_ok_comp)
  then have "?f5 (?f4 (?f3 (?f2 (?f1 ?init)))) = ?init \<or> touched_r (?f5 (?f4 (?f3 (?f2 (?f1 ?init)))))"
    unfolding stage_ok_def by blast
  then show ?thesis
    by (simp add: redacted_def Let_def)
qed

lemma redactText_returns: "\<exists>r. redactText rt txt options = Some r"
proof (cases "enabled options")
  case True
  then show ?thesis by (simp add: redactText_enabled)
next
  case False
  then show ?thesis by (simp add: redactText_def)
qed

lemma apply_custom_malformed: "RegExp_compile rt bad = None \<Longrightarrow> apply_custom rt bad r = r"
  by (simp add: apply_custom_def)

section \<open>The shared UUID pattern\<close>

lemma UUID_test_state: "snd (RegExp_test (UUID_REGEX li) token) = UUID_REGEX li"
  by (simp add: RegExp_test_def RegExp_exec_def UUID_REGEX_def Let_def split: option.splits prod.splits)

lemma UUID_test_result:
  "fst (RegExp_test (UUID_REGEX li) token) = fst (RegExp_test (UUID_REGEX 0) token)"
  by (simp add: RegExp_test_def RegExp_exec_def UUID_REGEX_def Let_def matcher_of_def
      split: option.splits prod.splits)

lemma looksLikeSecret_indep: "looksLikeSecret rt token = looksLikeSecret rt' token"
  unfolding looksLikeSecret_def
  by (subst UUID_test_result, subst (2) UUID_test_result) (rule refl)

section \<open>Dotted quads\<close>

lemma split_from_no_sep:
  "c \<notin> set x \<Longrightarrow> split_from [c] cur x = [cur @ x]"
  by (induction x arbitrary: cur) (auto simp add: split_from.simps)

lemma split_from_sep:
  "c \<notin> set x \<Longrightarrow> split_from [c] cur (x @ c # rest) = (cur @ x) # split_from [c] [] rest"
  by (induction x arbitrary: cur) (auto simp add: split_from.simps)

lemma digits_no_dot: "list_all is_digit x \<Longrightarrow> CHR ''.'' \<notin> set x"
  by (auto simp: list_all_iff is_digit_def code_def)

lemma split_quad:
  assumes "list_all is_digit x1" "list_all is_digit x2" "list_all is_digit x3" "list_all is_digit x4"
  shows "String_split (x1 @ ''.'' @ x2 @ ''.'' @ x3 @ ''.'' @ x4) ''.'' = [x1, x2, x3, x4]"
  using assms
  by (simp add: String_split_def split_from_sep split_from_no_sep digits_no_dot)

lemma isAllowedIP_quad:
  assumes "list_all is_digit x1" "list_all is_digit x2" "list_all is_digit x3" "list_all is_digit x4"
  shows "isAllowedIP (x1 @ ''.'' @ x2 @ ''.'' @ x3 @ ''.'' @ x4) =
     (decimal x1 = 127 \<or>
      (decimal x1 = 0 \<and> decimal x2 = 0 \<and> decimal x3 = 0 \<and> decimal x4 = 0) \<or>
      decimal x1 = 10 \<or>
      (decimal x1 = 172 \<and> 16 \<le> decimal x2 \<and> decimal x2 \<le> 31) \<or>
      (decimal x1 = 192 \<and> decimal x2 = 168) \<or>
      (decimal x1 = 169 \<and> decimal x2 = 254) \<or>
      x1 @ ''.'' @ x2 @ ''.'' @ x3 @ ''.'' @ x4 = ''8.8.8.8'' \<or>
      x1 @ ''.'' @ x2 @ ''.'' @ x3 @ ''.'' @ x4 = ''8.8.4.4'' \<or>
      x1 @ ''.'' @ x2 @ ''.'' @ x3 @ ''.'' @ x4 = ''1.1.1.1'' \<or>
      x1 @ ''.'' @ x2 @ ''.'' @ x3 @ ''.'' @ x4 = ''1.0.0.1'')"
  unfolding isAllowedIP_def split_quad[OF assms]
  using assms by (simp add: Number_def)

text \<open>
  A match of the ipv4 pattern is a text of digits and dots, so every part that
  \<open>isAllowedIP\<close> hands to \<open>Number\<close> is a text of digits, which \<open>Number\<close> reads as
  its decimal value.
\<close>

lemma matches_from_all:
  assumes "proper m"
    and A: "\<And>pre rest n. m pre rest = Some n \<Longrightarrow> list_all A (take n rest)"
  shows "x \<in> set (matches_from m pre s) \<Longrightarrow> list_all A x"
proof (induction "length s" arbitrary: pre s rule: less_induct)
  case less
  show ?case
  proof (cases "search m pre s")
    case None
    with less.prems show ?thesis
      by (simp add: matches_from_proper[OF assms(1)])
  next
    case (Some kn)
    obtain k n where kn: "kn = (k, n)" by (cases kn)
    from search_proper[OF assms(1) Some[unfolded kn]] have n: "0 < n" "k + n \<le> length s"
      by simp_all
    from search_Some[OF Some[unfolded kn]] have "m (pre @ take k s) (drop k s) = Some n"
      by simp
    from A[OF this] have 1: "list_all A (take n (drop k s))" .
    from less.prems Some kn
    have "x = take n (drop k s) \<or> x \<in> set (matches_from m (pre @ take (k + n) s) (drop (k + n) s))"
      by (simp add: matches_from_proper[OF assms(1), of pre s])
    then show ?thesis
    proof
      assume "x = take n (drop k s)"
      with 1 show ?thesis by simp
    next
      assume 2: "x \<in> set (matches_from m (pre @ take (k + n) s) (drop (k + n) s))"
      from n have "length (drop (k + n) s) < length s" by simp
      from less.hyps[OF this 2] show ?thesis .
    qed
  qed
qed

lemma ipv4_match_chars:
  assumes "m \<in> set (match_all (matcher_of (regex pattern_ipv4)) txt)"
  shows "list_all (\<lambda>c. is_digit c \<or> c = CHR ''.'') m"
proof -
  let ?r = "source (regex pattern_ipv4)"
  have nn: "\<not> nullable ?r"
    using BUILT_IN_not_nullable by (simp add: BUILT_IN_PATTERNS_def)
  have dot: "c = CHR ''.''" if "(of_char c :: nat) = 46" for c
  proof -
    from that have "(of_char c :: nat) = of_char CHR ''.''"
      by simp
    then show ?thesis
      by (simp only: of_char_eq_iff)
  qed
  have acc: "accepts False ?r c \<Longrightarrow> is_digit c \<or> c = CHR ''.''" for c
    by (auto simp: pattern_ipv4_def re_g_def cat_def exactly_def between_def in_class_def
        canon_def code_def dest: dot)
  have "list_all (\<lambda>c. is_digit c \<or> c = CHR ''.'') (take n rest)"
    if "matcher_of (regex pattern_ipv4) pre rest = Some n" for pre rest n
  proof -
    from that have "rx_matcher False ?r pre rest = Some n"
      by (simp add: matcher_of_def pattern_ipv4_def re_g_def)
    from rx_matcher_Some[OF this] have "list_all (accepts False ?r) (take n rest)"
      by simp
    then show ?thesis
      using acc by (simp add: list_all_iff)
  qed
  moreover have "proper (matcher_of (regex pattern_ipv4))"
    using proper_rx_matcher[OF nn, of False]
    by (simp add: matcher_of_def pattern_ipv4_def re_g_def)
  ultimately show ?thesis
    using matches_from_all[of "matcher_of (regex pattern_ipv4)"
        "\<lambda>c. is_digit c \<or> c = CHR ''.''" m "[]" "txt"] assms
    by (simp add: match_all_matches_from)
qed

lemma split_from_digits:
  "list_all (\<lambda>c. is_digit c \<or> c = CHR ''.'') s \<Longrightarrow> list_all is_digit cur \<Longrightarrow>
   list_all (list_all is_digit) (split_from ''.'' cur s)"
proof (induction s arbitrary: cur)
  case Nil
  then show ?case by (simp add: split_from.simps)
next
  case (Cons c cs)
  then show ?case
    by (cases "c = CHR ''.''") (auto simp: split_from.simps)
qed

lemma ipv4_match_Number:
  assumes "m \<in> set (match_all (matcher_of (regex pattern_ipv4)) txt)"
  shows "list_all (\<lambda>part. Number part = Some (decimal part)) (String_split m ''.'')"
  using split_from_digits[OF ipv4_match_chars[OF assms], of "[]"]
  by (simp add: String_split_def Number_def list_all_iff)

section \<open>The tests of \<open>looksLikeSecret\<close>\<close>

text \<open>
  The tests of \<open>looksLikeSecret\<close> are tests against patterns.  They are the count of
  the dots, the presence of a character of a class, and the shape of a UUID.
\<close>

lemma rx_matcher_one_char:
  "rx_matcher ic (Lit a) = char_matcher (\<lambda>c. canon ic a = canon ic c)"
  "rx_matcher ic (Cls items) = char_matcher (in_class ic items)"
  by (intro ext; simp add: rx_matcher_def char_matcher_def one_char_def split: list.splits)+

lemma search_char_None:
  "search (char_matcher ok) pre s = None \<longleftrightarrow> \<not> list_ex ok s"
  by (induction s arbitrary: pre) (auto simp: char_matcher_def)

lemma proper_char_matcher: "proper (char_matcher ok)"
  by (auto simp: proper_def char_matcher_def split: list.splits if_splits)

lemma matches_from_char:
  "matches_from (char_matcher ok) pre s = map (\<lambda>c. [c]) (filter ok s)"
proof (induction s arbitrary: pre)
  case Nil
  then show ?case
    by (subst matches_from_proper[OF proper_char_matcher]) (simp add: char_matcher_def)
next
  case (Cons c cs)
  show ?case
  proof (cases "ok c")
    case True
    then have "search (char_matcher ok) pre (c # cs) = Some (0, 1)"
      by (simp add: char_matcher_def)
    then show ?thesis
      using True Cons.IH[of "pre @ [c]"]
      by (subst matches_from_proper[OF proper_char_matcher]) simp
  next
    case False
    show ?thesis
    proof (cases "search (char_matcher ok) (pre @ [c]) cs")
      case None
      then have "search (char_matcher ok) pre (c # cs) = None"
        using False by (simp add: char_matcher_def)
      moreover have "filter ok cs = []"
        using None search_char_None[of ok "pre @ [c]" cs] by (simp add: list_ex_iff filter_empty_conv)
      ultimately show ?thesis
        using False
        by (subst matches_from_proper[OF proper_char_matcher]) simp
    next
      case (Some kn)
      obtain k n where kn: "kn = (k, n)" by (cases kn)
      have s: "search (char_matcher ok) pre (c # cs) = Some (Suc k, n)"
        using False Some kn by (simp add: char_matcher_def)
      have "matches_from (char_matcher ok) pre (c # cs) =
            take n (drop k cs) # matches_from (char_matcher ok) (pre @ c # take (k + n) cs) (drop (k + n) cs)"
        by (subst matches_from_proper[OF proper_char_matcher]) (simp add: s del: search.simps)
      also have "\<dots> = matches_from (char_matcher ok) (pre @ [c]) cs"
        by (subst (2) matches_from_proper[OF proper_char_matcher]) (simp add: Some kn)
      finally show ?thesis
        using False Cons.IH[of "pre @ [c]"] by simp
    qed
  qed
qed

lemma count_dots:
  "length (match_all (matcher_of (re_g (Lit CHR ''.''))) token) =
   length (filter (\<lambda>c. c = CHR ''.'') token)"
proof -
  have "canon False CHR ''.'' = canon False c \<longleftrightarrow> c = CHR ''.''" for c
  proof -
    have "code CHR ''.'' = code c \<longleftrightarrow> CHR ''.'' = c"
      unfolding code_def by (rule of_char_eq_iff)
    then show ?thesis
      by (auto simp: canon_def)
  qed
  then have "(\<lambda>c. canon False CHR ''.'' = canon False c) = (\<lambda>c. c = CHR ''.'')"
    by (simp add: fun_eq_iff)
  then show ?thesis
    by (simp add: match_all_matches_from matcher_of_def re_g_def rx_matcher_one_char matches_from_char)
qed

lemma RegExp_test_plain:
  "fst (RegExp_test (re_plain r) s) = (search (rx_matcher False r) [] s \<noteq> None)"
  by (simp add: RegExp_test_def RegExp_exec_def re_plain_def Let_def matcher_of_def
      split: option.splits prod.splits)

lemma class_tests:
  "fst (RegExp_test (re_plain (Cls [upper_az])) token) = list_ex is_upper token"
  "fst (RegExp_test (re_plain (Cls [lower_az])) token) = list_ex is_lower token"
  "fst (RegExp_test (re_plain (Cls [digit_09])) token) = list_ex is_digit token"
proof -
  have "in_class False [upper_az] = is_upper" "in_class False [lower_az] = is_lower"
    "in_class False [digit_09] = is_digit"
    by (auto simp: in_class_def upper_az_def lower_az_def digit_09_def is_upper_def is_lower_def
        is_digit_def code_def fun_eq_iff)
  then show "fst (RegExp_test (re_plain (Cls [upper_az])) token) = list_ex is_upper token"
    "fst (RegExp_test (re_plain (Cls [lower_az])) token) = list_ex is_lower token"
    "fst (RegExp_test (re_plain (Cls [digit_09])) token) = list_ex is_digit token"
    by (simp_all add: RegExp_test_plain rx_matcher_one_char search_char_None)
qed

lemma rep_min_one_char:
  "rep_min (one_char ok) n (pc, s) =
     (if n \<le> length s \<and> list_all ok (take n s)
      then [(if n = 0 then pc else Some (s ! (n - 1)), drop n s)] else [])"
proof (induction n arbitrary: pc s)
  case 0
  then show ?case by simp
next
  case (Suc n)
  show ?case
  proof (cases s)
    case Nil
    then show ?thesis by (simp add: one_char_def)
  next
    case (Cons c cs)
    then show ?thesis
      using Suc.IH[of "Some c" cs]
      by (cases n) (simp_all add: one_char_def)
  qed
qed

lemma exactly_steps:
  "steps ic (exactly n (Cls items)) (pc, s) =
     (if n \<le> length s \<and> list_all (in_class ic items) (take n s)
      then [(if n = 0 then pc else Some (s ! (n - 1)), drop n s)] else [])"
proof -
  have "rep_more f (Some 0) True = (\<lambda>q. [q])" for f
    by (simp add: rep_more.simps fun_eq_iff)
  moreover have "steps ic (Cls items) = one_char (in_class ic items)"
    by (simp add: fun_eq_iff)
  ultimately have "steps ic (exactly n (Cls items)) (pc, s) = rep_min (one_char (in_class ic items)) n (pc, s)"
    by (simp add: exactly_def)
  then show ?thesis
    by (simp only: rep_min_one_char)
qed

lemma hex_class: "in_class True [digit_09, Rng CHR ''a'' CHR ''f''] = is_hex"
  by (auto simp: in_class_def digit_09_def is_hex_def is_digit_def is_lower_def is_upper_def code_def
      fun_eq_iff)

lemma hyphen_canon: "canon True CHR ''-'' = canon True c \<longleftrightarrow> c = CHR ''-''"
proof -
  have "code CHR ''-'' = code c \<longleftrightarrow> CHR ''-'' = c"
    unfolding code_def by (rule of_char_eq_iff)
  moreover have "code CHR ''-'' = 45" by (simp add: code_def)
  ultimately show ?thesis
    by (auto simp: canon_def is_lower_def)
qed

lemma search_anchored:
  assumes "\<And>pre rest. pre \<noteq> [] \<Longrightarrow> m pre rest = None"
  shows "search m [] s = map_option (Pair 0) (m [] s)"
proof -
  have "pre \<noteq> [] \<Longrightarrow> search m pre s = None" for pre s
    by (induction s arbitrary: pre) (simp_all add: assms)
  then show ?thesis
    by (cases s) (auto split: option.splits)
qed

lemma UUID_test:
  "fst (RegExp_test (UUID_REGEX li) token) = is_uuid token"
proof -
  let ?r = "source (UUID_REGEX li)"
  have anch: "rx_matcher True ?r pre rest = None" if "pre \<noteq> []" for pre rest
    using that by (simp add: rx_matcher_def UUID_REGEX_def cat_def last_char_def)
  have "fst (RegExp_test (UUID_REGEX li) token) = (search (rx_matcher True ?r) [] token \<noteq> None)"
    by (simp add: RegExp_test_def RegExp_exec_def UUID_REGEX_def Let_def matcher_of_def
        split: option.splits prod.splits)
  also have "\<dots> = (rx_matcher True ?r [] token \<noteq> None)"
    by (simp add: search_anchored[of "rx_matcher True ?r", OF anch])
  also have "\<dots> = (steps True ?r (None, token) \<noteq> [])"
    by (simp add: rx_matcher_def last_char_def split: list.splits)
  also have "\<dots> = is_uuid token"
    by (auto simp add: UUID_REGEX_def cat_def hex_digit_def exactly_steps hex_class one_char_def
        hyphen_canon is_uuid_def hex_run_def hyphen_def split: list.splits if_splits)
  finally show ?thesis .
qed

section \<open>Evaluation\<close>

text \<open>Rules with which the examples are computed by rewriting.\<close>

lemma rep_min_numeral: "rep_min f (numeral k) p = concat (map (rep_min f (pred_numeral k)) (f p))"
  by (simp add: numeral_eq_Suc)

lemma rep_min_1: "rep_min f 1 p = concat (map (rep_min f 0) (f p))"
  by simp

lemma code_table:
  "code (CHR 0x00) = 0"
  "code (CHR 0x01) = 1"
  "code (CHR 0x02) = 2"
  "code (CHR 0x03) = 3"
  "code (CHR 0x04) = 4"
  "code (CHR 0x05) = 5"
  "code (CHR 0x06) = 6"
  "code (CHR 0x07) = 7"
  "code (CHR 0x08) = 8"
  "code (CHR 0x09) = 9"
  "code (CHR 0x0A) = 10"
  "code (CHR 0x0B) = 11"
  "code (CHR 0x0C) = 12"
  "code (CHR 0x0D) = 13"
  "code (CHR 0x0E) = 14"
  "code (CHR 0x0F) = 15"
  "code (CHR 0x10) = 16"
  "code (CHR 0x11) = 17"
  "code (CHR 0x12) = 18"
  "code (CHR 0x13) = 19"
  "code (CHR 0x14) = 20"
  "code (CHR 0x15) = 21"
  "code (CHR 0x16) = 22"
  "code (CHR 0x17) = 23"
  "code (CHR 0x18) = 24"
  "code (CHR 0x19) = 25"
  "code (CHR 0x1A) = 26"
  "code (CHR 0x1B) = 27"
  "code (CHR 0x1C) = 28"
  "code (CHR 0x1D) = 29"
  "code (CHR 0x1E) = 30"
  "code (CHR 0x1F) = 31"
  "code (CHR 0x20) = 32"
  "code (CHR 0x21) = 33"
  "code (CHR 0x22) = 34"
  "code (CHR 0x23) = 35"
  "code (CHR 0x24) = 36"
  "code (CHR 0x25) = 37"
  "code (CHR 0x26) = 38"
  "code (CHR 0x27) = 39"
  "code (CHR 0x28) = 40"
  "code (CHR 0x29) = 41"
  "code (CHR 0x2A) = 42"
  "code (CHR 0x2B) = 43"
  "code (CHR 0x2C) = 44"
  "code (CHR 0x2D) = 45"
  "code (CHR 0x2E) = 46"
  "code (CHR 0x2F) = 47"
  "code (CHR 0x30) = 48"
  "code (CHR 0x31) = 49"
  "code (CHR 0x32) = 50"
  "code (CHR 0x33) = 51"
  "code (CHR 0x34) = 52"
  "code (CHR 0x35) = 53"
  "code (CHR 0x36) = 54"
  "code (CHR 0x37) = 55"
  "code (CHR 0x38) = 56"
  "code (CHR 0x39) = 57"
  "code (CHR 0x3A) = 58"
  "code (CHR 0x3B) = 59"
  "code (CHR 0x3C) = 60"
  "code (CHR 0x3D) = 61"
  "code (CHR 0x3E) = 62"
  "code (CHR 0x3F) = 63"
  "code (CHR 0x40) = 64"
  "code (CHR 0x41) = 65"
  "code (CHR 0x42) = 66"
  "code (CHR 0x43) = 67"
  "code (CHR 0x44) = 68"
  "code (CHR 0x45) = 69"
  "code (CHR 0x46) = 70"
  "code (CHR 0x47) = 71"
  "code (CHR 0x48) = 72"
  "code (CHR 0x49) = 73"
  "code (CHR 0x4A) = 74"
  "code (CHR 0x4B) = 75"
  "code (CHR 0x4C) = 76"
  "code (CHR 0x4D) = 77"
  "code (CHR 0x4E) = 78"
  "code (CHR 0x4F) = 79"
  "code (CHR 0x50) = 80"
  "code (CHR 0x51) = 81"
  "code (CHR 0x52) = 82"
  "code (CHR 0x53) = 83"
  "code (CHR 0x54) = 84"
  "code (CHR 0x55) = 85"
  "code (CHR 0x56) = 86"
  "code (CHR 0x57) = 87"
  "code (CHR 0x58) = 88"
  "code (CHR 0x59) = 89"
  "code (CHR 0x5A) = 90"
  "code (CHR 0x5B) = 91"
  "code (CHR 0x5C) = 92"
  "code (CHR 0x5D) = 93"
  "code (CHR 0x5E) = 94"
  "code (CHR 0x5F) = 95"
  "code (CHR 0x60) = 96"
  "code (CHR 0x61) = 97"
  "code (CHR 0x62) = 98"
  "code (CHR 0x63) = 99"
  "code (CHR 0x64) = 100"
  "code (CHR 0x65) = 101"
  "code (CHR 0x66) = 102"
  "code (CHR 0x67) = 103"
  "code (CHR 0x68) = 104"
  "code (CHR 0x69) = 105"
  "code (CHR 0x6A) = 106"
  "code (CHR 0x6B) = 107"
  "code (CHR 0x6C) = 108"
  "code (CHR 0x6D) = 109"
  "code (CHR 0x6E) = 110"
  "code (CHR 0x6F) = 111"
  "code (CHR 0x70) = 112"
  "code (CHR 0x71) = 113"
  "code (CHR 0x72) = 114"
  "code (CHR 0x73) = 115"
  "code (CHR 0x74) = 116"
  "code (CHR 0x75) = 117"
  "code (CHR 0x76) = 118"
  "code (CHR 0x77) = 119"
  "code (CHR 0x78) = 120"
  "code (CHR 0x79) = 121"
  "code (CHR 0x7A) = 122"
  "code (CHR 0x7B) = 123"
  "code (CHR 0x7C) = 124"
  "code (CHR 0x7D) = 125"
  "code (CHR 0x7E) = 126"
  "code (CHR 0x7F) = 127"
  "code (CHR 0x80) = 128"
  "code (CHR 0x81) = 129"
  "code (CHR 0x82) = 130"
  "code (CHR 0x83) = 131"
  "code (CHR 0x84) = 132"
  "code (CHR 0x85) = 133"
  "code (CHR 0x86) = 134"
  "code (CHR 0x87) = 135"
  "code (CHR 0x88) = 136"
  "code (CHR 0x89) = 137"
  "code (CHR 0x8A) = 138"
  "code (CHR 0x8B) = 139"
  "code (CHR 0x8C) = 140"
  "code (CHR 0x8D) = 141"
  "code (CHR 0x8E) = 142"
  "code (CHR 0x8F) = 143"
  "code (CHR 0x90) = 144"
  "code (CHR 0x91) = 145"
  "code (CHR 0x92) = 146"
  "code (CHR 0x93) = 147"
  "code (CHR 0x94) = 148"
  "code (CHR 0x95) = 149"
  "code (CHR 0x96) = 150"
  "code (CHR 0x97) = 151"
  "code (CHR 0x98) = 152"
  "code (CHR 0x99) = 153"
  "code (CHR 0x9A) = 154"
  "code (CHR 0x9B) = 155"
  "code (CHR 0x9C) = 156"
  "code (CHR 0x9D) = 157"
  "code (CHR 0x9E) = 158"
  "code (CHR 0x9F) = 159"
  "code (CHR 0xA0) = 160"
  "code (CHR 0xA1) = 161"
  "code (CHR 0xA2) = 162"
  "code (CHR 0xA3) = 163"
  "code (CHR 0xA4) = 164"
  "code (CHR 0xA5) = 165"
  "code (CHR 0xA6) = 166"
  "code (CHR 0xA7) = 167"
  "code (CHR 0xA8) = 168"
  "code (CHR 0xA9) = 169"
  "code (CHR 0xAA) = 170"
  "code (CHR 0xAB) = 171"
  "code (CHR 0xAC) = 172"
  "code (CHR 0xAD) = 173"
  "code (CHR 0xAE) = 174"
  "code (CHR 0xAF) = 175"
  "code (CHR 0xB0) = 176"
  "code (CHR 0xB1) = 177"
  "code (CHR 0xB2) = 178"
  "code (CHR 0xB3) = 179"
  "code (CHR 0xB4) = 180"
  "code (CHR 0xB5) = 181"
  "code (CHR 0xB6) = 182"
  "code (CHR 0xB7) = 183"
  "code (CHR 0xB8) = 184"
  "code (CHR 0xB9) = 185"
  "code (CHR 0xBA) = 186"
  "code (CHR 0xBB) = 187"
  "code (CHR 0xBC) = 188"
  "code (CHR 0xBD) = 189"
  "code (CHR 0xBE) = 190"
  "code (CHR 0xBF) = 191"
  "code (CHR 0xC0) = 192"
  "code (CHR 0xC1) = 193"
  "code (CHR 0xC2) = 194"
  "code (CHR 0xC3) = 195"
  "code (CHR 0xC4) = 196"
  "code (CHR 0xC5) = 197"
  "code (CHR 0xC6) = 198"
  "code (CHR 0xC7) = 199"
  "code (CHR 0xC8) = 200"
  "code (CHR 0xC9) = 201"
  "code (CHR 0xCA) = 202"
  "code (CHR 0xCB) = 203"
  "code (CHR 0xCC) = 204"
  "code (CHR 0xCD) = 205"
  "code (CHR 0xCE) = 206"
  "code (CHR 0xCF) = 207"
  "code (CHR 0xD0) = 208"
  "code (CHR 0xD1) = 209"
  "code (CHR 0xD2) = 210"
  "code (CHR 0xD3) = 211"
  "code (CHR 0xD4) = 212"
  "code (CHR 0xD5) = 213"
  "code (CHR 0xD6) = 214"
  "code (CHR 0xD7) = 215"
  "code (CHR 0xD8) = 216"
  "code (CHR 0xD9) = 217"
  "code (CHR 0xDA) = 218"
  "code (CHR 0xDB) = 219"
  "code (CHR 0xDC) = 220"
  "code (CHR 0xDD) = 221"
  "code (CHR 0xDE) = 222"
  "code (CHR 0xDF) = 223"
  "code (CHR 0xE0) = 224"
  "code (CHR 0xE1) = 225"
  "code (CHR 0xE2) = 226"
  "code (CHR 0xE3) = 227"
  "code (CHR 0xE4) = 228"
  "code (CHR 0xE5) = 229"
  "code (CHR 0xE6) = 230"
  "code (CHR 0xE7) = 231"
  "code (CHR 0xE8) = 232"
  "code (CHR 0xE9) = 233"
  "code (CHR 0xEA) = 234"
  "code (CHR 0xEB) = 235"
  "code (CHR 0xEC) = 236"
  "code (CHR 0xED) = 237"
  "code (CHR 0xEE) = 238"
  "code (CHR 0xEF) = 239"
  "code (CHR 0xF0) = 240"
  "code (CHR 0xF1) = 241"
  "code (CHR 0xF2) = 242"
  "code (CHR 0xF3) = 243"
  "code (CHR 0xF4) = 244"
  "code (CHR 0xF5) = 245"
  "code (CHR 0xF6) = 246"
  "code (CHR 0xF7) = 247"
  "code (CHR 0xF8) = 248"
  "code (CHR 0xF9) = 249"
  "code (CHR 0xFA) = 250"
  "code (CHR 0xFB) = 251"
  "code (CHR 0xFC) = 252"
  "code (CHR 0xFD) = 253"
  "code (CHR 0xFE) = 254"
  "code (CHR 0xFF) = 255"
  by (simp_all add: code_def)

lemmas rx_eval = code_table is_digit_def is_upper_def is_lower_def is_word_def is_space_def canon_def
  in_class_def one_char_def word_before_def word_after_def
  cat_def str_def alts_def opt_def star_def plus_def atleast_def exactly_def between_def
  rep_more.simps rep_min_numeral rep_min_1 rx_matcher_def last_char_def matcher_of_def
  RegExp_fresh_def re_g_def re_gi_def re_plain_def
  upper_az_def lower_az_def digit_09_def alnum_def alnum_dash_def sep_opt_def dquote_def squote_def
  quote_def pem_label_def phone_sep_def

lemma replace_from_rx:
  "\<not> nullable r \<Longrightarrow>
   replace_from (rx_matcher ic r) cb pre s st =
     (case search (rx_matcher ic r) pre s of
        None \<Rightarrow> (s, st)
      | Some (k, n) \<Rightarrow>
          (case cb (take n (drop k s)) st of
             (repl, st') \<Rightarrow>
               (case replace_from (rx_matcher ic r) cb (pre @ take (k + n) s) (drop (k + n) s) st' of
                  (out, st'') \<Rightarrow> (take k s @ repl @ out, st''))))"
  using replace_from_proper_Some[OF proper_rx_matcher] replace_from_no_match
  by (auto split: option.splits)

lemma apply_pattern_rx:
  "apply_pattern p r =
     (case replace_from (rx_matcher (ignoreCase (regex p)) (source (regex p))) (redact_match p) []
             (text r) (redactedCount r, types r) of
        (out, count, ts) \<Rightarrow> \<lparr>text = out, redactedCount = count, types = ts\<rparr>)"
  by (simp add: apply_pattern_def String_replace_def matcher_of_def RegExp_fresh_def)

lemmas redact_eval = apply_pattern_rx replace_from_rx redact_match_def allowed_def push_new_def
  indexOf_def slice_to_def

lemma looksLikeSecret_iff:
  "looksLikeSecret rt token \<longleftrightarrow>
     \<not> is_uuid token \<and> length (filter (\<lambda>c. c = CHR ''.'') token) \<le> 2 \<and>
     list_ex is_upper token \<and> list_ex is_lower token \<and> list_ex is_digit token"
  by (auto simp add: looksLikeSecret_def UUID_test count_dots class_tests Let_def)

lemma matches_from_rx:
  "\<not> nullable r \<Longrightarrow>
   matches_from (rx_matcher ic r) pre s =
     (case search (rx_matcher ic r) pre s of
        None \<Rightarrow> []
      | Some (k, n) \<Rightarrow>
          take n (drop k s) # matches_from (rx_matcher ic r) (pre @ take (k + n) s) (drop (k + n) s))"
  using matches_from_proper[OF proper_rx_matcher] by blast

lemma log2_32: "log 2 (1 / 32) = - 5"
proof -
  have "log 2 (2 ^ 5) = 5"
    by (subst log_nat_power) simp_all
  then have "log 2 32 = 5" by simp
  then show ?thesis
    by (simp add: log_divide)
qed

lemma entropy_ex:
  "shannonEntropy ''ABCDEFGHabcdefghijklmnop01234567'' = 5"
  by (simp add: shannonEntropy_def Let_def log2_32)

lemma tokens_ex:
  "match_all (matcher_of tokenRegex) ''key ABCDEFGHabcdefghijklmnop01234567'' = [''ABCDEFGHabcdefghijklmnop01234567'']"
  by (simp add: match_all_matches_from tokenRegex_def matches_from_rx rx_eval)

lemma tokens_uuid:
  "match_all (matcher_of tokenRegex) ''123e4567-e89b-12d3-a456-426614174000'' = [''123e4567-e89b-12d3-a456-426614174000'']"
  by (simp add: match_all_matches_from tokenRegex_def matches_from_rx rx_eval)

lemma uuid_ex: "is_uuid ''123e4567-e89b-12d3-a456-426614174000''"
  by (simp add: is_uuid_def hex_run_def hyphen_def is_hex_def is_digit_def code_table)

section \<open>Messages and tool uses\<close>

lemma redact_optional_eq:
  "enabled options \<Longrightarrow>
   \<exists>tot'. redact_optional rt options t tot = Some (redacted_optional rt options t, tot')"
  by (cases t) (simp_all add: redact_optional_def redacted_optional_def redactText_enabled
      redacted_text_def)

lemma redact_tool_use_eq:
  assumes "enabled options"
  shows "\<exists>tot'. redact_tool_use rt options tu tot = Some (redacted_tool_use rt options tu, tot')"
proof -
  from redact_optional_eq[OF assms, of rt "result tu"
      "add_result (redacted rt (input_summary tu) options) tot"]
  obtain tot' where "redact_optional rt options (result tu)
      (add_result (redacted rt (input_summary tu) options) tot) =
      Some (redacted_optional rt options (result tu), tot')"
    by blast
  then show ?thesis
    by (simp add: redact_tool_use_def redacted_tool_use_def redactText_enabled[OF assms]
        redacted_text_def)
qed

lemma map_totals_eq:
  assumes "\<And>x tot. \<exists>tot'. f x tot = Some (g x, tot')"
  shows "\<exists>tot'. map_totals f xs tot = Some (map g xs, tot')"
proof (induction xs arbitrary: tot)
  case Nil
  then show ?case by simp
next
  case (Cons x xs)
  from assms[of x tot] obtain tot1 where 1: "f x tot = Some (g x, tot1)" by blast
  from Cons[of tot1] obtain tot2 where 2: "map_totals f xs tot1 = Some (map g xs, tot2)" by blast
  show ?case by (simp add: 1 2)
qed

lemma redact_message_eq:
  assumes "enabled options"
  shows "\<exists>tot'. redact_message rt options msg tot = Some (redacted_message rt options msg, tot')"
proof -
  let ?c = "redacted rt (content msg) options"
  from redact_optional_eq[OF assms, of rt "thinking msg" "add_result ?c tot"]
  obtain tot1 where 1: "redact_optional rt options (thinking msg) (add_result ?c tot) =
      Some (redacted_optional rt options (thinking msg), tot1)"
    by blast
  show ?thesis
  proof (cases "tool_uses msg")
    case None
    then show ?thesis
      by (simp add: redact_message_def redacted_message_def redactText_enabled[OF assms] 1
          redacted_text_def)
  next
    case (Some tus)
    from map_totals_eq[of "redact_tool_use rt options" "redacted_tool_use rt options" tus tot1,
        OF redact_tool_use_eq[OF assms]]
    obtain tot2 where "map_totals (redact_tool_use rt options) tus tot1 =
        Some (map (redacted_tool_use rt options) tus, tot2)"
      by blast
    then show ?thesis
      by (simp add: redact_message_def redacted_message_def redactText_enabled[OF assms] 1 Some
          redacted_text_def)
  qed
qed

section \<open>The returned text\<close>

text \<open>
  The text that a replacement returns does not depend on the counters, so the text that
  \<open>redactText\<close> returns is the chain of substitutions on the input text.
\<close>

lemma replace_from_fst:
  assumes cb: "\<And>x st. fst (cb x st) = f x"
  shows "fst (replace_from m cb pre s st) = fst (replace_from m (\<lambda>x u. (f x, u)) pre s ())"
proof (induction "length s" arbitrary: s pre st rule: less_induct)
  case less
  show ?case
  proof (cases s)
    case Nil
    then show ?thesis
      using cb by (simp add: replace_from.simps split: option.splits)
  next
    case (Cons c cs)
    show ?thesis
    proof (cases "search m pre (c # cs)")
      case None
      then show ?thesis using Cons by (simp add: replace_from_Cons del: search.simps)
    next
      case (Some kn)
      obtain k n where kn: "kn = (k, n)" by (cases kn)
      obtain repl st' where r: "cb (take n (drop k (c # cs))) st = (repl, st')"
        by (cases "cb (take n (drop k (c # cs))) st")
      have repl: "repl = f (take n (drop k (c # cs)))"
        using cb[of "take n (drop k (c # cs))" st] r by simp
      show ?thesis
      proof (cases "n = 0")
        case True
        show ?thesis
        proof (cases "drop k (c # cs)")
          case Nil
          then show ?thesis
            using Some kn r repl True Cons by (simp add: replace_from_Cons del: search.simps)
        next
          case (Cons d ds)
          then have "length (d # ds) = length (drop k (c # cs))" by simp
          then have "length ds < length s" using \<open>s = c # cs\<close> by simp
          from less.hyps[OF this, of "pre @ take k (c # cs) @ [d]" st'] show ?thesis
            using Some kn r repl True Cons \<open>s = c # cs\<close>
            by (simp add: replace_from_Cons case_prod_beta del: search.simps)
        qed
      next
        case False
        then have "length (drop (k + n) (c # cs)) < length s"
          using Cons by (cases n) simp_all
        from less.hyps[OF this, of "pre @ take k (c # cs) @ take n (drop k (c # cs))" st']
        show ?thesis
          using Some kn r repl False Cons
          by (simp add: replace_from_Cons case_prod_beta del: drop_Suc_Cons take_Suc_Cons search.simps)
      qed
    qed
  qed
qed

lemma redact_match_fst: "fst (redact_match p m st) = fst (redact_match p m (0, []))"
  by (simp add: redact_match_def)

lemma apply_pattern_text: "text (apply_pattern p r) = substitute_pattern p (text r)"
  using replace_from_fst[of "redact_match p" "\<lambda>m. fst (redact_match p m (0, []))"
      "matcher_of (regex p)" "[]" "text r" "(redactedCount r, types r)", OF redact_match_fst]
  by (simp add: apply_pattern_def substitute_pattern_def replace_matches_def String_replace_def
      case_prod_beta)

lemma apply_custom_text: "text (apply_custom rt patternStr r) = substitute_custom rt patternStr (text r)"
proof (cases "RegExp_compile rt patternStr")
  case None
  then show ?thesis by (simp add: apply_custom_def substitute_custom_def)
next
  case (Some re)
  have "fst (redact_custom x st) = ''[REDACTED:custom]''" for x st
    by (simp add: redact_custom_def)
  from replace_from_fst[of redact_custom "\<lambda>m. ''[REDACTED:custom]''" re "[]" "text r"
      "(redactedCount r, types r)", OF this] Some
  show ?thesis
    by (simp add: apply_custom_def substitute_custom_def replace_matches_def String_replace_def
        case_prod_beta)
qed

lemma apply_string_text: "text (apply_string s r) = substitute_string s (text r)"
  by (simp add: apply_string_def substitute_string_def split_join_def)

lemma apply_username_text: "text (apply_username rt u r) = substitute_username rt u (text r)"
  by (simp add: apply_username_def substitute_username_def split_join_def hashUsername_def Let_def)

lemma apply_token_text: "text (apply_token token r) = substitute_token token (text r)"
  by (simp add: apply_token_def substitute_token_def split_join_def)

lemma fold_text:
  assumes "\<And>x r. text (f x r) = g x (text r)"
  shows "text (fold f xs r) = fold g xs (text r)"
  by (induction xs arbitrary: r) (simp_all add: assms)

lemma redacted_text_substituted: "text (redacted rt txt options) = substituted rt options txt"
  by (simp add: redacted_def substituted_def Let_def
      fold_text[of apply_pattern substitute_pattern, OF apply_pattern_text]
      fold_text[of "apply_custom rt" "substitute_custom rt", OF apply_custom_text]
      fold_text[of apply_string substitute_string, OF apply_string_text]
      fold_text[of "apply_username rt" "substitute_username rt", OF apply_username_text]
      fold_text[of apply_token substitute_token, OF apply_token_text])

section \<open>Evaluation of the examples\<close>

lemmas text_eval = redactText_enabled redacted_def BASE_OPTS_def sample_runtime_def or_empty_def
  usernamesToRedact_def apply_username_def apply_string_def hashUsername_def Let_def push_new_def

lemmas builtin_eval = BUILT_IN_PATTERNS_def pattern_defs rx_eval redact_eval

lemmas ip_eval = isAllowedIP_def String_split_def split_from.simps Number_def decimal_def

lemma builtin_cli_placeholder:
  "fold apply_pattern BUILT_IN_PATTERNS
     \<lparr>text = ''--token [REDACTED:cli-secret]'', redactedCount = 0, types = []\<rparr> =
   \<lparr>text = ''--token [REDACTED:cli-secret]'', redactedCount = 1, types = [''cli-secret'']\<rparr>"
  by (simp add: builtin_eval)

lemma builtin_hi:
  "fold apply_pattern BUILT_IN_PATTERNS \<lparr>text = ''hi'', redactedCount = 0, types = []\<rparr> =
   \<lparr>text = ''hi'', redactedCount = 0, types = []\<rparr>"
  by (simp add: builtin_eval)

lemma builtin_env_secret:
  "fold apply_pattern BUILT_IN_PATTERNS
     \<lparr>text = ''API_KEY=abcdefgh12'', redactedCount = 0, types = []\<rparr> =
   \<lparr>text = ''API_KEY=[REDACTED:env-secret]'', redactedCount = 1, types = [''env-secret'']\<rparr>"
  by (simp add: builtin_eval)




lemma builtin_out_of_range_ip:
  "fold apply_pattern BUILT_IN_PATTERNS
     \<lparr>text = ''127.999.999.999'', redactedCount = 0, types = []\<rparr> =
   \<lparr>text = ''127.999.999.999'', redactedCount = 0, types = []\<rparr>"
  by (simp add: builtin_eval ip_eval)

lemma builtin_empty:
  "fold apply_pattern BUILT_IN_PATTERNS \<lparr>text = [], redactedCount = 0, types = []\<rparr> =
   \<lparr>text = [], redactedCount = 0, types = []\<rparr>"
  by (simp add: builtin_eval)

section \<open>Conservation\<close>

text \<open>
  C1 as stated: with redaction enabled and no custom patterns, extra usernames or literal
  strings, \<open>redactedCount = 0\<close> if and only if \<open>types\<close> is empty if and only if the
  output equals the input.  The last equivalence fails: the replacement of the
  \<open>cli-secret\<close> pattern keeps the flag and writes the placeholder, which is the whole
  input again when the value already is the placeholder.  The call counts one redaction
  and returns the input text.
\<close>

theorem conservation_counterexample:
  "redactText sample_runtime ''--token [REDACTED:cli-secret]'' BASE_OPTS =
     Some \<lparr>text = ''--token [REDACTED:cli-secret]'', redactedCount = 1, types = [''cli-secret'']\<rparr>"
  by (simp add: text_eval builtin_cli_placeholder)

text \<open>
  C1, amended.  For every input text and all options, \<open>redactText\<close> returns a result,
  the result has \<open>redactedCount = 0\<close> if and only if \<open>types\<close> is empty, and
  \<open>redactedCount = 0\<close> implies that the output text equals the input text.
\<close>

theorem redactText_conservation:
  "\<exists>r. redactText rt txt options = Some r \<and>
        (redactedCount r = 0 \<longleftrightarrow> types r = []) \<and> (redactedCount r = 0 \<longrightarrow> text r = txt)"
proof (cases "enabled options")
  case False
  then show ?thesis by (simp add: redactText_def)
next
  case True
  then have r: "redactText rt txt options = Some (redacted rt txt options)"
    by (simp add: redactText_enabled)
  from redacted_same_or_touched[of rt "txt" "options"]
  have "(redactedCount (redacted rt txt options) = 0 \<longleftrightarrow> types (redacted rt txt options) = []) \<and>
      (redactedCount (redacted rt txt options) = 0 \<longrightarrow> text (redacted rt txt options) = txt)"
    by (auto simp: touched_r_def touched_def)
  with r show ?thesis
    by simp
qed

theorem redactText_conservation_witness:
  "redactText sample_runtime ''hi'' BASE_OPTS =
     Some \<lparr>text = ''hi'', redactedCount = 0, types = []\<rparr> \<and>
   (redactedCount \<lparr>text = ''hi'', redactedCount = 0, types = []\<rparr> = 0 \<longleftrightarrow>
    types \<lparr>text = ''hi'', redactedCount = 0, types = []\<rparr> = []) \<and>
   redactedCount \<lparr>text = ''hi'', redactedCount = 0, types = []\<rparr> = 0 \<and>
   text \<lparr>text = ''hi'', redactedCount = 0, types = []\<rparr> = ''hi''"
proof -
  have 1: "redactText sample_runtime ''hi'' BASE_OPTS =
      Some \<lparr>text = ''hi'', redactedCount = 0, types = []\<rparr>"
    by (simp add: text_eval builtin_hi)
  from redactText_conservation[of sample_runtime "''hi''" BASE_OPTS] 1 show ?thesis
    by simp
qed

section \<open>Placeholders\<close>

text \<open>
  C2 as stated: every replacement of a built-in pattern is \<open>[REDACTED:name]\<close> with the
  name of the pattern, except for \<open>cli-secret\<close> and \<open>url-secret\<close>.  The \<open>env-secret\<close>
  pattern is in the table under that name, and it keeps the variable name and the equals
  sign; \<open>bearer-token\<close> keeps the word Bearer.
\<close>

theorem placeholder_counterexample:
  "pattern_env_secret \<in> set BUILT_IN_PATTERNS \<and>
   name pattern_env_secret = ''env-secret'' \<and>
   placeholder pattern_env_secret ''API_KEY=abcdefgh12'' = ''API_KEY=[REDACTED:env-secret]'' \<and>
   placeholder pattern_env_secret ''API_KEY=abcdefgh12'' \<noteq>
     ''[REDACTED:'' @ name pattern_env_secret @ '']'' \<and>
   redactText sample_runtime ''API_KEY=abcdefgh12'' BASE_OPTS =
     Some \<lparr>text = ''API_KEY=[REDACTED:env-secret]'', redactedCount = 1, types = [''env-secret'']\<rparr> \<and>
   placeholder pattern_bearer_token ''Bearer abcdefghijklmnopqrstuvwx'' =
     ''Bearer [REDACTED:bearer-token]''"
  by (simp add: text_eval builtin_env_secret)
     (simp add: BUILT_IN_PATTERNS_def pattern_env_secret_def pattern_bearer_token_def indexOf_def
        slice_to_def)

lemma builtin_my_secret:
  "fold apply_pattern BUILT_IN_PATTERNS \<lparr>text = ''my secret'', redactedCount = 0, types = []\<rparr> =
   \<lparr>text = ''my secret'', redactedCount = 0, types = []\<rparr>"
  by (simp add: builtin_eval)

lemma builtin_key_token:
  "fold apply_pattern BUILT_IN_PATTERNS
     \<lparr>text = ''key ABCDEFGHabcdefghijklmnop01234567'', redactedCount = 0, types = []\<rparr> =
   \<lparr>text = ''key ABCDEFGHabcdefghijklmnop01234567'', redactedCount = 0, types = []\<rparr>"
  by (simp add: builtin_eval)

lemma builtin_home:
  "fold apply_pattern BUILT_IN_PATTERNS
     \<lparr>text = ''/home/alice/f.ts'', redactedCount = 0, types = []\<rparr> =
   \<lparr>text = ''/home/alice/f.ts'', redactedCount = 0, types = []\<rparr>"
  by (simp add: builtin_eval)

lemma token_ok_example: "token_ok sample_runtime ''ABCDEFGHabcdefghijklmnop01234567''"
  by (simp add: token_ok_def looksLikeSecret_iff MIN_HIGH_ENTROPY_LENGTH_def
      ENTROPY_THRESHOLD_def entropy_ex is_uuid_def hex_run_def hyphen_def is_hex_def
      is_digit_def is_upper_def is_lower_def code_table)

lemma user_specified_example:
  "redactText sample_runtime ''my secret'' (BASE_OPTS\<lparr>redactStrings := Some [''secret'']\<rparr>) =
     Some \<lparr>text = ''my [REDACTED:user-specified]'', redactedCount = 1,
           types = [''user-specified'']\<rparr>"
  by (simp add: text_eval builtin_my_secret String_split_def split_from.simps)

lemma username_example:
  "redactText sample_runtime ''/home/alice/f.ts'' BASE_OPTS =
     Some \<lparr>text = ''/home/user_2bd806c9/f.ts'', redactedCount = 1, types = [''username'']\<rparr>"
  by (simp add: text_eval builtin_home String_split_def split_from.simps sample_sha256_def)

lemma high_entropy_example:
  "redactText sample_runtime ''key ABCDEFGHabcdefghijklmnop01234567''
     (BASE_OPTS\<lparr>redactHighEntropy := Some True\<rparr>) =
     Some \<lparr>text = ''key [REDACTED:high-entropy]'', redactedCount = 1, types = [''high-entropy'']\<rparr>"
  using token_ok_example
  by (simp add: text_eval builtin_key_token tokens_ex apply_token_def String_split_def
      split_from.simps)

text \<open>
  C2, amended.  With redaction enabled, the text that \<open>redactText\<close> returns is the input
  text after the substitutions of its stages, and what is substituted for a match has one
  of the following forms.  A match that the allow predicate of its pattern excuses is
  left as it is.  Any other match of a pattern of the table is replaced by
  \<open>[REDACTED:name]\<close> with the name of the pattern, except for seven patterns.  For
  \<open>github-oauth\<close>, \<open>anthropic-key\<close> and \<open>openai-key\<close> the tag in the brackets is
  \<open>github-oauth-token\<close>, \<open>anthropic-api-key\<close> and \<open>openai-api-key\<close>.
  \<open>bearer-token\<close> gives the word Bearer, a space and its placeholder.  \<open>cli-secret\<close>
  keeps a match that contains a space up to and including the first space, \<open>url-secret\<close>
  and \<open>env-secret\<close> keep a match that contains an equals sign up to and including the
  first one, and each then writes its placeholder.  A match of a custom pattern is
  replaced by \<open>[REDACTED:custom]\<close>, an occurrence of a literal string by
  \<open>[REDACTED:user-specified]\<close>, an occurrence of a high-entropy token by
  \<open>[REDACTED:high-entropy]\<close>, and an occurrence of a user name by \<open>user_\<close> and the
  first 8 digits of its digest.
\<close>

theorem placeholder_forms:
  "(enabled options \<longrightarrow>
      (\<exists>r. redactText rt txt options = Some r \<and> text r = substituted rt options txt)) \<and>
   (p \<in> set BUILT_IN_PATTERNS \<longrightarrow> \<not> allowed p m \<longrightarrow>
    name p \<notin> set [''github-oauth'', ''anthropic-key'', ''openai-key'', ''bearer-token'',
                    ''cli-secret'', ''url-secret'', ''env-secret''] \<longrightarrow>
    fst (redact_match p m st) = ''[REDACTED:'' @ name p @ '']'') \<and>
   (allowed q x \<longrightarrow> redact_match q x st = (x, st)) \<and>
   fst (redact_match pattern_github_oauth m st) = ''[REDACTED:github-oauth-token]'' \<and>
   fst (redact_match pattern_anthropic_key m st) = ''[REDACTED:anthropic-api-key]'' \<and>
   fst (redact_match pattern_openai_key m st) = ''[REDACTED:openai-api-key]'' \<and>
   fst (redact_match pattern_bearer_token m st) = ''Bearer [REDACTED:bearer-token]'' \<and>
   (CHR '' '' \<in> set m \<longrightarrow>
    fst (redact_match pattern_cli_secret m st) =
      takeWhile (\<lambda>c. c \<noteq> CHR '' '') m @ '' [REDACTED:cli-secret]'') \<and>
   (CHR ''='' \<in> set m \<longrightarrow>
    fst (redact_match pattern_url_secret m st) =
      takeWhile (\<lambda>c. c \<noteq> CHR ''='') m @ ''=[REDACTED:url-secret]'') \<and>
   (CHR ''='' \<in> set m \<longrightarrow>
    fst (redact_match pattern_env_secret m st) =
      takeWhile (\<lambda>c. c \<noteq> CHR ''='') m @ ''=[REDACTED:env-secret]'') \<and>
   fst (redact_custom m st) = ''[REDACTED:custom]'' \<and>
   redactText sample_runtime ''my secret'' (BASE_OPTS\<lparr>redactStrings := Some [''secret'']\<rparr>) =
     Some \<lparr>text = ''my [REDACTED:user-specified]'', redactedCount = 1,
           types = [''user-specified'']\<rparr> \<and>
   redactText sample_runtime ''key ABCDEFGHabcdefghijklmnop01234567''
     (BASE_OPTS\<lparr>redactHighEntropy := Some True\<rparr>) =
     Some \<lparr>text = ''key [REDACTED:high-entropy]'', redactedCount = 1,
           types = [''high-entropy'']\<rparr> \<and>
   redactText sample_runtime ''/home/alice/f.ts'' BASE_OPTS =
     Some \<lparr>text = ''/home/user_2bd806c9/f.ts'', redactedCount = 1, types = [''username'']\<rparr>"
proof -
  have keep: "c \<in> set m \<Longrightarrow> slice_to m (indexOf m c + 1) = takeWhile (\<lambda>x. x \<noteq> c) m @ [c]" for c
  proof (induction m)
    case Nil
    then show ?case by simp
  next
    case (Cons a m)
    then show ?case
      by (cases "a = c") (auto simp: slice_to_def indexOf_def nat_add_distrib)
  qed
  have 1: "\<exists>r. redactText rt txt options = Some r \<and> text r = substituted rt options txt"
    if "enabled options"
    using that by (simp add: redactText_enabled redacted_text_substituted)
  have 2: "fst (redact_match p m st) = ''[REDACTED:'' @ name p @ '']''"
    if "p \<in> set BUILT_IN_PATTERNS" "\<not> allowed p m"
      "name p \<notin> set [''github-oauth'', ''anthropic-key'', ''openai-key'', ''bearer-token'',
                    ''cli-secret'', ''url-secret'', ''env-secret'']"
  proof -
    from that(2) have "fst (redact_match p m st) = placeholder p m"
      by (simp add: redact_match_def)
    moreover have "placeholder p m = ''[REDACTED:'' @ name p @ '']''"
      using that(1,3) unfolding BUILT_IN_PATTERNS_def by (auto simp: pattern_defs)
    ultimately show ?thesis
      by simp
  qed
  have 3: "redact_match q x st = (x, st)" if "allowed q x"
    using that by (simp add: redact_match_def)
  have 4: "fst (redact_match pattern_github_oauth m st) = ''[REDACTED:github-oauth-token]''"
    "fst (redact_match pattern_anthropic_key m st) = ''[REDACTED:anthropic-api-key]''"
    "fst (redact_match pattern_openai_key m st) = ''[REDACTED:openai-api-key]''"
    "fst (redact_match pattern_bearer_token m st) = ''Bearer [REDACTED:bearer-token]''"
    by (simp_all add: redact_match_def allowed_def pattern_github_oauth_def
        pattern_anthropic_key_def pattern_openai_key_def pattern_bearer_token_def)
  have 5: "fst (redact_match pattern_cli_secret m st) =
      takeWhile (\<lambda>c. c \<noteq> CHR '' '') m @ '' [REDACTED:cli-secret]''"
    if "CHR '' '' \<in> set m"
    using that by (simp add: redact_match_def allowed_def pattern_cli_secret_def keep Let_def)
  have 6: "fst (redact_match pattern_url_secret m st) =
      takeWhile (\<lambda>c. c \<noteq> CHR ''='') m @ ''=[REDACTED:url-secret]''"
    "fst (redact_match pattern_env_secret m st) =
      takeWhile (\<lambda>c. c \<noteq> CHR ''='') m @ ''=[REDACTED:env-secret]''"
    if "CHR ''='' \<in> set m"
    using that
    by (simp_all add: redact_match_def allowed_def pattern_url_secret_def pattern_env_secret_def
        keep Let_def)
  have 7: "fst (redact_custom m st) = ''[REDACTED:custom]''"
    by (simp add: redact_custom_def)
  from 1 2 3 4 5 6 7 user_specified_example high_entropy_example username_example
  show ?thesis
    by blast
qed

theorem placeholder_forms_witness:
  "enabled BASE_OPTS \<and>
   (\<exists>r. redactText sample_runtime ''hi'' BASE_OPTS = Some r \<and>
        text r = substituted sample_runtime BASE_OPTS ''hi'') \<and>
   pattern_email \<in> set BUILT_IN_PATTERNS \<and>
   \<not> allowed pattern_email ''--token a=bcdefgh'' \<and>
   name pattern_email \<notin> set [''github-oauth'', ''anthropic-key'', ''openai-key'', ''bearer-token'',
                    ''cli-secret'', ''url-secret'', ''env-secret''] \<and>
   fst (redact_match pattern_email ''--token a=bcdefgh'' (0, [])) =
     ''[REDACTED:'' @ name pattern_email @ '']'' \<and>
   allowed pattern_ipv4 ''10.0.0.1'' \<and>
   redact_match pattern_ipv4 ''10.0.0.1'' (0, []) = (''10.0.0.1'', 0, []) \<and>
   CHR '' '' \<in> set ''--token a=bcdefgh'' \<and>
   fst (redact_match pattern_cli_secret ''--token a=bcdefgh'' (0, [])) =
     ''--token [REDACTED:cli-secret]'' \<and>
   CHR ''='' \<in> set ''--token a=bcdefgh'' \<and>
   fst (redact_match pattern_url_secret ''--token a=bcdefgh'' (0, [])) =
     ''--token a=[REDACTED:url-secret]'' \<and>
   fst (redact_match pattern_env_secret ''--token a=bcdefgh'' (0, [])) =
     ''--token a=[REDACTED:env-secret]''"
proof -
  have 0: "enabled BASE_OPTS"
    by (simp add: BASE_OPTS_def)
  have 1: "pattern_email \<in> set BUILT_IN_PATTERNS"
    by (simp add: BUILT_IN_PATTERNS_def)
  have 2: "name pattern_email \<notin> set [''github-oauth'', ''anthropic-key'', ''openai-key'',
      ''bearer-token'', ''cli-secret'', ''url-secret'', ''env-secret'']"
    by (simp add: pattern_email_def)
  have 3: "CHR '' '' \<in> set ''--token a=bcdefgh''" "CHR ''='' \<in> set ''--token a=bcdefgh''"
    by simp_all
  have 4: "\<not> allowed pattern_email ''--token a=bcdefgh''"
    by (simp add: allowed_def pattern_email_def isAllowedEmail_def lastIndexOf_def)
  have 5: "allowed pattern_ipv4 ''10.0.0.1''"
    by (simp add: allowed_def pattern_ipv4_def ip_eval is_digit_def code_table)
  from placeholder_forms[of BASE_OPTS sample_runtime "''hi''" pattern_email
      "''--token a=bcdefgh''" "(0, [])" pattern_ipv4 "''10.0.0.1''"] 0 1 2 3 4 5
  show ?thesis
    by simp
qed

section \<open>Disabled redaction\<close>

text \<open>
  C8.  For every input text and any options whose \<open>enabled\<close> field is false,
  \<open>redactText\<close> returns the input text unchanged with \<open>redactedCount\<close> 0 and an empty
  \<open>types\<close> list, whatever the other option fields are.
\<close>

theorem redactText_disabled:
  "\<not> enabled options \<Longrightarrow>
   redactText rt txt options = Some \<lparr>text = txt, redactedCount = 0, types = []\<rparr>"
  by (simp add: redactText_def)

theorem redactText_disabled_witness:
  "\<not> enabled (BASE_OPTS\<lparr>enabled := False, customPatterns := Some [''(''],
                          redactStrings := Some [''secret''], redactHighEntropy := Some True\<rparr>) \<and>
   redactText sample_runtime ''my secret token''
     (BASE_OPTS\<lparr>enabled := False, customPatterns := Some [''(''],
                redactStrings := Some [''secret''], redactHighEntropy := Some True\<rparr>) =
   Some \<lparr>text = ''my secret token'', redactedCount = 0, types = []\<rparr>"
  using redactText_disabled
    [of "BASE_OPTS\<lparr>enabled := False, customPatterns := Some [''(''],
                    redactStrings := Some [''secret''], redactHighEntropy := Some True\<rparr>"
        sample_runtime "''my secret token''"]
  by simp

section \<open>Malformed custom patterns\<close>

text \<open>
  C5.  If \<open>customPatterns\<close> contains a text for which the \<open>RegExp\<close> constructor
  throws, \<open>redactText\<close> returns a result, and it is the result for the options without
  that entry: the entries before and after it and every later stage are applied as if
  the malformed entry were not there.
\<close>

theorem redactText_skips_malformed:
  assumes "RegExp_compile rt bad = None" "customPatterns options = Some (xs @ bad # ys)"
  shows "redactText rt txt options = redactText rt txt (options\<lparr>customPatterns := Some (xs @ ys)\<rparr>) \<and>
         (\<exists>r. redactText rt txt options = Some r)"
proof -
  have "fold (apply_custom rt) (xs @ bad # ys) r = fold (apply_custom rt) (xs @ ys) r" for r
    by (simp add: apply_custom_malformed[OF assms(1)])
  then have "redactText rt txt options = redactText rt txt (options\<lparr>customPatterns := Some (xs @ ys)\<rparr>)"
    using assms(2) by (simp add: redactText_def usernamesToRedact_def or_empty_def)
  then show ?thesis
    using redactText_returns by blast
qed

theorem redactText_skips_malformed_witness:
  "RegExp_compile sample_runtime ''('' = None \<and>
   customPatterns (BASE_OPTS\<lparr>customPatterns := Some ([''[0-9]+''] @ ''('' # [[]])\<rparr>) =
     Some ([''[0-9]+''] @ ''('' # [[]]) \<and>
   redactText sample_runtime ''id 42''
     (BASE_OPTS\<lparr>customPatterns := Some ([''[0-9]+''] @ ''('' # [[]])\<rparr>) =
   redactText sample_runtime ''id 42''
     (BASE_OPTS\<lparr>customPatterns := Some ([''[0-9]+''] @ ''('' # [[]]),
                customPatterns := Some ([''[0-9]+''] @ [[]])\<rparr>) \<and>
   (\<exists>r. redactText sample_runtime ''id 42''
          (BASE_OPTS\<lparr>customPatterns := Some ([''[0-9]+''] @ ''('' # [[]])\<rparr>) = Some r)"
proof -
  have 1: "RegExp_compile sample_runtime ''('' = None"
    by (simp add: sample_runtime_def sample_RegExp_def)
  have 2: "customPatterns (BASE_OPTS\<lparr>customPatterns := Some ([''[0-9]+''] @ ''('' # [[]])\<rparr>) =
      Some ([''[0-9]+''] @ ''('' # [[]])"
    by simp
  from redactText_skips_malformed[OF 1 2, of "''id 42''"] 1 2 show ?thesis
    by blast
qed

section \<open>Determinism\<close>

text \<open>
  C7.  The result of \<open>redactText\<close> is a function of the account (user name and home
  directory), the digest, the \<open>RegExp\<close> constructor, the text and the options: it does
  not depend on the \<open>lastIndex\<close> that earlier calls may have left in the shared
  \<open>UUID_REGEX\<close>, a test against that object leaves it as it was, every pattern object
  the call matches with is fresh, and a user name is replaced by the same pseudonym in
  every call.
\<close>

theorem redactText_deterministic:
  assumes "os_username rt = os_username rt'" "os_homedir rt = os_homedir rt'"
    "sha256_hex rt = sha256_hex rt'" "RegExp_compile rt = RegExp_compile rt'"
  shows "redactText rt txt options = redactText rt' txt options \<and>
         hashUsername rt username = hashUsername rt' username \<and>
         snd (RegExp_test (UUID_REGEX (UUID_lastIndex rt)) token) = UUID_REGEX (UUID_lastIndex rt) \<and>
         lastIndex (RegExp_fresh re) = 0"
proof -
  have 1: "findHighEntropyTokens rt = findHighEntropyTokens rt'"
    by (intro ext) (simp add: findHighEntropyTokens_def looksLikeSecret_indep[of rt _ rt'])
  have 2: "apply_custom rt = apply_custom rt'"
    by (intro ext) (simp add: apply_custom_def assms)
  have 3: "hashUsername rt = hashUsername rt'"
    by (intro ext) (simp add: hashUsername_def assms)
  then have 4: "apply_username rt = apply_username rt'"
    by (intro ext) (simp add: apply_username_def)
  have 5: "usernamesToRedact rt options = usernamesToRedact rt' options"
    by (simp add: usernamesToRedact_def assms)
  show ?thesis
    by (simp add: redactText_def Let_def 1 2 3 4 5 UUID_test_state RegExp_fresh_def)
qed

theorem redactText_deterministic_witness:
  "os_username sample_runtime = os_username (sample_runtime\<lparr>UUID_lastIndex := 7\<rparr>) \<and>
   os_homedir sample_runtime = os_homedir (sample_runtime\<lparr>UUID_lastIndex := 7\<rparr>) \<and>
   sha256_hex sample_runtime = sha256_hex (sample_runtime\<lparr>UUID_lastIndex := 7\<rparr>) \<and>
   RegExp_compile sample_runtime = RegExp_compile (sample_runtime\<lparr>UUID_lastIndex := 7\<rparr>) \<and>
   redactText sample_runtime ''/home/alice/f.ts'' (BASE_OPTS\<lparr>redactHighEntropy := Some True\<rparr>) =
   redactText (sample_runtime\<lparr>UUID_lastIndex := 7\<rparr>) ''/home/alice/f.ts''
     (BASE_OPTS\<lparr>redactHighEntropy := Some True\<rparr>) \<and>
   hashUsername sample_runtime ''alice'' =
   hashUsername (sample_runtime\<lparr>UUID_lastIndex := 7\<rparr>) ''alice''"
  using redactText_deterministic
    [of sample_runtime "sample_runtime\<lparr>UUID_lastIndex := 7\<rparr>" "''/home/alice/f.ts''"
        "BASE_OPTS\<lparr>redactHighEntropy := Some True\<rparr>" "''alice''"]
  by simp

section \<open>The IPv4 allowlist\<close>

lemma isAllowedIP_range:
  assumes "list_all is_digit x1" "list_all is_digit x2" "list_all is_digit x3" "list_all is_digit x4"
    and "allowlisted_range (decimal x1) (decimal x2) (decimal x3) (decimal x4)"
  shows "isAllowedIP (dotted x1 x2 x3 x4)"
  using assms(5) unfolding dotted_def isAllowedIP_quad[OF assms(1-4)] allowlisted_range_def
  by blast






text \<open>
  C10.  \<open>isAllowedIP\<close> looks at the leading parts only: a dotted quad of decimal parts
  is allowed when its first part is 127 or 10, or its first two parts are 172 and 16 to
  31, 192 and 168, or 169 and 254, whatever the remaining parts are.  The part 999 exceeds
  255, the ipv4 pattern matches 127.999.999.999, and \<open>redactText\<close> leaves that text as
  it is.
\<close>

theorem isAllowedIP_no_octet_check:
  "(list_all is_digit x1 \<and> list_all is_digit x2 \<and> list_all is_digit x3 \<and> list_all is_digit x4 \<longrightarrow>
    (decimal x1 = 127 \<or> decimal x1 = 10 \<or>
     (decimal x1 = 172 \<and> 16 \<le> decimal x2 \<and> decimal x2 \<le> 31) \<or>
     (decimal x1 = 192 \<and> decimal x2 = 168) \<or>
     (decimal x1 = 169 \<and> decimal x2 = 254)) \<longrightarrow>
    isAllowedIP (dotted x1 x2 x3 x4)) \<and>
   255 < decimal ''999'' \<and>
   isAllowedIP ''127.999.999.999'' \<and>
   match_all (matcher_of (regex pattern_ipv4)) ''127.999.999.999'' = [''127.999.999.999''] \<and>
   redactText sample_runtime ''127.999.999.999'' BASE_OPTS =
     Some \<lparr>text = ''127.999.999.999'', redactedCount = 0, types = []\<rparr>"
proof -
  have 1: "isAllowedIP (dotted x1 x2 x3 x4)"
    if "list_all is_digit x1 \<and> list_all is_digit x2 \<and> list_all is_digit x3 \<and> list_all is_digit x4"
      "decimal x1 = 127 \<or> decimal x1 = 10 \<or>
       (decimal x1 = 172 \<and> 16 \<le> decimal x2 \<and> decimal x2 \<le> 31) \<or>
       (decimal x1 = 192 \<and> decimal x2 = 168) \<or>
       (decimal x1 = 169 \<and> decimal x2 = 254)"
    using that isAllowedIP_range[of x1 x2 x3 x4] unfolding allowlisted_range_def by blast
  have 2: "255 < decimal ''999''"
    by (simp add: decimal_def code_table)
  have 3: "isAllowedIP ''127.999.999.999''"
    by (simp add: ip_eval is_digit_def code_table)
  have 4: "match_all (matcher_of (regex pattern_ipv4)) ''127.999.999.999'' = [''127.999.999.999'']"
    by (simp add: match_all_matches_from pattern_ipv4_def matches_from_rx rx_eval)
  have 5: "redactText sample_runtime ''127.999.999.999'' BASE_OPTS =
      Some \<lparr>text = ''127.999.999.999'', redactedCount = 0, types = []\<rparr>"
    by (simp add: text_eval builtin_out_of_range_ip)
  from 1 2 3 4 5 show ?thesis
    by blast
qed

theorem isAllowedIP_no_octet_check_witness:
  "list_all is_digit ''127'' \<and> list_all is_digit ''999'' \<and> decimal ''127'' = 127 \<and>
   isAllowedIP (dotted ''127'' ''999'' ''999'' ''999'')"
proof -
  have 1: "list_all is_digit ''127'' \<and> list_all is_digit ''999''"
    by (simp add: is_digit_def code_table)
  have 2: "decimal ''127'' = 127"
    by (simp add: decimal_def code_table)
  from isAllowedIP_no_octet_check[of "''127''" "''999''" "''999''" "''999''"] 1 2
  show ?thesis
    by simp
qed

section \<open>High-entropy tokens\<close>

text \<open>
  C4.  \<open>findHighEntropyTokens\<close> returns a list, and a token is in it only if it has at
  least 32 characters, its entropy is at least 3.5 bits per character, it does not have
  the shape of a UUID (8, 4, 4, 4 and 12 hexadecimal digits with hyphens between them),
  it has at most 2 dots, and it has an upper-case letter, a lower-case letter and a
  digit.  For the UUID 123e4567-e89b-12d3-a456-426614174000 the list is empty.
\<close>

theorem findHighEntropyTokens_filter:
  "(\<exists>tokens. findHighEntropyTokens rt txt = Some tokens) \<and>
   (findHighEntropyTokens rt txt = Some tokens \<longrightarrow> token \<in> set tokens \<longrightarrow>
      32 \<le> length token \<and> 3.5 \<le> shannonEntropy token \<and> \<not> is_uuid token \<and>
      length (filter (\<lambda>c. c = CHR ''.'') token) \<le> 2 \<and>
      list_ex is_upper token \<and> list_ex is_lower token \<and> list_ex is_digit token) \<and>
   findHighEntropyTokens rt ''123e4567-e89b-12d3-a456-426614174000'' = Some []"
proof -
  have "token_ok rt token \<Longrightarrow>
      32 \<le> length token \<and> 3.5 \<le> shannonEntropy token \<and> \<not> is_uuid token \<and>
      length (filter (\<lambda>c. c = CHR ''.'') token) \<le> 2 \<and>
      list_ex is_upper token \<and> list_ex is_lower token \<and> list_ex is_digit token"
    by (simp add: token_ok_def looksLikeSecret_iff MIN_HIGH_ENTROPY_LENGTH_def ENTROPY_THRESHOLD_def)
  moreover have "\<not> token_ok rt ''123e4567-e89b-12d3-a456-426614174000''"
    using uuid_ex by (simp add: token_ok_def looksLikeSecret_iff)
  ultimately show ?thesis
    by (auto simp add: findHighEntropyTokens_eq tokens_uuid)
qed

theorem findHighEntropyTokens_filter_witness:
  "findHighEntropyTokens sample_runtime ''key ABCDEFGHabcdefghijklmnop01234567'' =
     Some [''ABCDEFGHabcdefghijklmnop01234567''] \<and>
   ''ABCDEFGHabcdefghijklmnop01234567'' \<in> set [''ABCDEFGHabcdefghijklmnop01234567''] \<and>
   32 \<le> length ''ABCDEFGHabcdefghijklmnop01234567'' \<and>
   3.5 \<le> shannonEntropy ''ABCDEFGHabcdefghijklmnop01234567'' \<and>
   \<not> is_uuid ''ABCDEFGHabcdefghijklmnop01234567'' \<and>
   list_ex is_upper ''ABCDEFGHabcdefghijklmnop01234567''"
proof -
  have ok: "token_ok sample_runtime ''ABCDEFGHabcdefghijklmnop01234567''"
    by (simp add: token_ok_def looksLikeSecret_iff MIN_HIGH_ENTROPY_LENGTH_def
        ENTROPY_THRESHOLD_def entropy_ex is_uuid_def hex_run_def hyphen_def is_hex_def
        is_digit_def is_upper_def is_lower_def code_table)
  have 1: "findHighEntropyTokens sample_runtime ''key ABCDEFGHabcdefghijklmnop01234567'' =
      Some [''ABCDEFGHabcdefghijklmnop01234567'']"
    by (simp add: findHighEntropyTokens_eq tokens_ex ok)
  from findHighEntropyTokens_filter
    [of sample_runtime "''key ABCDEFGHabcdefghijklmnop01234567''"
        "[''ABCDEFGHabcdefghijklmnop01234567'']" "''ABCDEFGHabcdefghijklmnop01234567''"] 1
  show ?thesis
    by simp
qed

section \<open>The post-redaction scanner\<close>

lemma ipv4_hits_example:
  "pattern_hits pattern_ipv4 ''at 10.0.0.1 or 8.8.8.9'' = [''[ipv4] 8.8.8.9'']"
  by (simp add: pattern_hits_def hit_def allowed_def match_all_matches_from pattern_ipv4_def
      matches_from_rx rx_eval ip_eval)

lemma email_hits_example:
  "pattern_hits pattern_email ''a@test.com b@corp.io'' = [''[email] b@corp.io'']"
  by (simp add: pattern_hits_def hit_def allowed_def match_all_matches_from pattern_email_def
      matches_from_rx rx_eval isAllowedEmail_def lastIndexOf_def slice_from_def toLowerCase_def
      toLowerCase_char_def ALLOWED_EMAIL_DOMAINS_def Let_def)

text \<open>
  C9.  \<open>scanForRemaining\<close> returns a list of hits and nothing else (the text is an
  argument that it only reads): for every pattern of the table, in order, one hit for
  every match in the text that the pattern's allow predicate does not excuse, made of the
  name in brackets, a space and the first 80 characters of the match; then one hit
  \<open>[high-entropy]\<close> for every token that \<open>findHighEntropyTokens\<close> finds.  The private
  address 10.0.0.1 gives no hit, the public address 8.8.8.9 gives one; an address at the
  allowlisted domain test.com gives no hit, one at corp.io gives one.
\<close>

theorem scanForRemaining_hits:
  "scanForRemaining rt txt =
     Some (concat (map (\<lambda>pattern. pattern_hits pattern txt) BUILT_IN_PATTERNS) @
           map (\<lambda>token. ''[high-entropy] '' @ take 80 token)
             (filter (token_ok rt) (match_all (matcher_of tokenRegex) txt))) \<and>
   pattern_hits pattern txt =
     map (\<lambda>match. ''['' @ name pattern @ ''] '' @ take 80 match)
       (filter (\<lambda>match. \<not> allowed pattern match) (match_all (matcher_of (regex pattern)) txt)) \<and>
   pattern_hits pattern_ipv4 ''at 10.0.0.1 or 8.8.8.9'' = [''[ipv4] 8.8.8.9''] \<and>
   pattern_hits pattern_email ''a@test.com b@corp.io'' = [''[email] b@corp.io'']"
  using scanForRemaining_eq[of rt "txt"] ipv4_hits_example email_hits_example
  by (simp add: pattern_hits_def hit_def)

section \<open>Sessions\<close>

text \<open>
  C6 as stated: with redaction enabled, an optional thinking text that is present is
  replaced by its redaction.  The guard \<open>if (thinking)\<close> skips a thinking text that is
  present and empty: with a custom pattern that matches the empty text, the empty
  content becomes \<open>[REDACTED:custom]\<close>, which is what \<open>redactText\<close> returns for the
  empty text, while the empty thinking text of the same message stays empty.
\<close>

theorem redactSession_counterexample:
  "redactSession sample_runtime sample_session (BASE_OPTS\<lparr>customPatterns := Some [[]]\<rparr>) =
     Some (sample_session\<lparr>messages := [sample_message\<lparr>content := ''[REDACTED:custom]''\<rparr>]\<rparr>,
           1, [''custom'']) \<and>
   thinking sample_message = Some [] \<and>
   redactText sample_runtime [] (BASE_OPTS\<lparr>customPatterns := Some [[]]\<rparr>) =
     Some \<lparr>text = ''[REDACTED:custom]'', redactedCount = 1, types = [''custom'']\<rparr>"
proof -
  have 1: "redactText sample_runtime [] (BASE_OPTS\<lparr>customPatterns := Some [[]]\<rparr>) =
      Some \<lparr>text = ''[REDACTED:custom]'', redactedCount = 1, types = [''custom'']\<rparr>"
    by (simp add: text_eval builtin_empty apply_custom_def sample_RegExp_def String_replace_def
        replace_from.simps rx_matcher_def redact_custom_def)
  then show ?thesis
    by (simp add: redactSession_def sample_session_def sample_message_def redact_message_def
        redact_optional_def add_result_def push_new_def BASE_OPTS_def)
qed

text \<open>
  C6, amended.  With redaction enabled, \<open>redactSession\<close> returns a session that is the
  input with every message replaced as follows and every other field of the session as it
  was: the content is redacted; the thinking text is redacted if it is present and not
  empty; in every tool use the input summary is redacted and the result is redacted if it
  is present and not empty; every other field of the message and of the tool use is as
  it was.  The redaction of a text is the text of the result that \<open>redactText\<close> returns
  for it.  The input is a value and is not changed.
\<close>

theorem redactSession_frame:
  assumes "enabled options"
  shows "(\<exists>totalRedacted allTypes.
            redactSession rt session options =
              Some (session\<lparr>messages := map (redacted_message rt options) (messages session)\<rparr>,
                    totalRedacted, allTypes)) \<and>
         (\<exists>r. redactText rt s options = Some r \<and> redacted_text rt options s = text r)"
proof -
  from map_totals_eq[of "redact_message rt options" "redacted_message rt options"
      "messages session" "(0, [])", OF redact_message_eq[OF assms]]
  obtain tot where "map_totals (redact_message rt options) (messages session) (0, []) =
      Some (map (redacted_message rt options) (messages session), tot)"
    by blast
  then have "\<exists>totalRedacted allTypes.
      redactSession rt session options =
        Some (session\<lparr>messages := map (redacted_message rt options) (messages session)\<rparr>,
              totalRedacted, allTypes)"
    using assms by (cases tot) (simp add: redactSession_def)
  moreover have "\<exists>r. redactText rt s options = Some r \<and> redacted_text rt options s = text r"
    using assms by (simp add: redactText_enabled redacted_text_def)
  ultimately show ?thesis
    by blast
qed

theorem redactSession_frame_witness:
  "enabled (BASE_OPTS\<lparr>customPatterns := Some [[]]\<rparr>) \<and>
   (\<exists>totalRedacted allTypes.
      redactSession sample_runtime sample_session (BASE_OPTS\<lparr>customPatterns := Some [[]]\<rparr>) =
        Some (sample_session
                \<lparr>messages := map (redacted_message sample_runtime (BASE_OPTS\<lparr>customPatterns := Some [[]]\<rparr>))
                               (messages sample_session)\<rparr>,
              totalRedacted, allTypes))"
proof -
  have 1: "enabled (BASE_OPTS\<lparr>customPatterns := Some [[]]\<rparr>)"
    by (simp add: BASE_OPTS_def)
  from redactSession_frame[OF 1, of sample_runtime sample_session] 1 show ?thesis
    by blast
qed

end
